theory Spec2Isabelle
  imports Main "HOL-Library.Word"
begin

unbundle bit_operations_syntax

section \<open>Numbers and library functions of the platform\<close>

text \<open>
  The expression tree stores C++ \<open>double\<close> values (the numeric value of a
  \<open>ScalarSymbol\<close>, the parts of a \<open>ComplexSymbol\<close>, the coefficients of a
  \<open>SumExpression\<close>) and hashes into \<open>std::size_t\<close>. A double is modelled by its
  IEEE-754 binary64 bit pattern, so that the comparisons the code makes (\<open>==\<close>,
  \<open>!=\<close>, \<open>>= 0\<close>) are exactly the IEEE ones: a NaN is unequal to everything, itself
  included, and \<open>-0.0 == 0.0\<close>. \<open>std::size_t\<close> is a 64-bit word.
\<close>

type_synonym double = "64 word"
type_synonym size_t = "64 word"

definition d_abs_bits :: "double \<Rightarrow> 64 word" where
  "d_abs_bits d = d AND 0x7FFFFFFFFFFFFFFF"

definition d_isnan :: "double \<Rightarrow> bool" where
  "d_isnan d = (0x7FF0000000000000 < d_abs_bits d)"

definition d_iszero :: "double \<Rightarrow> bool" where
  "d_iszero d = (d_abs_bits d = 0)"

definition d_eq :: "double \<Rightarrow> double \<Rightarrow> bool" where
  \<comment> \<open>\<open>a == b\<close> on doubles\<close>
  "d_eq a b = (\<not> d_isnan a \<and> \<not> d_isnan b \<and> (a = b \<or> (d_iszero a \<and> d_iszero b)))"

definition d_ne :: "double \<Rightarrow> double \<Rightarrow> bool" where
  \<comment> \<open>\<open>a != b\<close> on doubles\<close>
  "d_ne a b = (\<not> d_eq a b)"

definition d_ge_zero :: "double \<Rightarrow> bool" where
  \<comment> \<open>\<open>a >= 0\<close> on doubles\<close>
  "d_ge_zero a = (\<not> d_isnan a \<and> (d_iszero a \<or> a AND 0x8000000000000000 = 0))"

definition d_zero :: double where
  \<comment> \<open>the literal \<open>0.0\<close>\<close>
  "d_zero = 0"

definition d_one :: double where
  \<comment> \<open>the literal \<open>1.0\<close>\<close>
  "d_one = 0x3FF0000000000000"

definition d_nan :: double where
  \<comment> \<open>a quiet NaN, as \<open>std::numeric_limits<double>::quiet_NaN()\<close> gives\<close>
  "d_nan = 0x7FF8000000000000"

text \<open>
  The functions of the C++ standard library that the code calls are not part of the
  repository; they are the fields of a \<open>platform\<close>, and every function of the model
  that reaches one of them takes the platform as its first argument:
  floating-point addition and multiplication, \<open>operator<<\<close> of an output stream on a
  double, \<open>std::to_string\<close> on a double, and \<open>std::hash\<close> on a string, an int and a
  double.
\<close>

record platform =
  double_add :: "double \<Rightarrow> double \<Rightarrow> double"
  double_mul :: "double \<Rightarrow> double \<Rightarrow> double"
  ostream_double :: "double \<Rightarrow> string"
  to_string_double :: "double \<Rightarrow> string"
  hash_string :: "string \<Rightarrow> size_t"
  hash_int :: "int \<Rightarrow> size_t"
  hash_double :: "double \<Rightarrow> size_t"

definition hash_respects_eq :: "platform \<Rightarrow> bool" where
  \<comment> \<open>the contract of \<open>std::hash<double>\<close>: equal keys have equal hashes\<close>
  "hash_respects_eq P =
     (\<forall>a b. d_eq a b \<longrightarrow> hash_double P a = hash_double P b)"

section \<open>Symbols (symbol.h, symbol.cpp)\<close>

text \<open>
  A \<open>Symbol\<close> has a name and a kind; \<open>ScalarSymbol\<close> and \<open>ComplexSymbol\<close> are its
  subclasses, of the fixed kinds \<open>SCALAR\<close> and \<open>COMPLEX\<close>, with their numbers. The
  string-keyed property bag of a symbol is copied by \<open>clone\<close> and read by nothing
  else that is modelled here, so it is left out.
\<close>

datatype symbol_type = SCALAR | VARIABLE | CONSTANT | COMPLEX

datatype symbol =
    Symbol string symbol_type
  | ScalarSymbol string double
  | ComplexSymbol string double double

fun name :: "symbol \<Rightarrow> string" where
  "name (Symbol n t) = n"
| "name (ScalarSymbol n v) = n"
| "name (ComplexSymbol n re im) = n"

fun symbol_kind :: "symbol \<Rightarrow> symbol_type" where
  "symbol_kind (Symbol n t) = t"
| "symbol_kind (ScalarSymbol n v) = SCALAR"
| "symbol_kind (ComplexSymbol n re im) = COMPLEX"

fun symbol_type_int :: "symbol_type \<Rightarrow> int" where
  \<comment> \<open>\<open>static_cast<int>\<close> of the enumerator\<close>
  "symbol_type_int SCALAR = 0"
| "symbol_type_int VARIABLE = 1"
| "symbol_type_int CONSTANT = 2"
| "symbol_type_int COMPLEX = 3"

definition is_scalar :: "symbol \<Rightarrow> bool" where
  "is_scalar s = (symbol_kind s = SCALAR)"

definition symbol_eq :: "symbol \<Rightarrow> symbol \<Rightarrow> bool" where
  \<comment> \<open>\<open>Symbol::operator==\<close>\<close>
  "symbol_eq s other = (name s = name other \<and> symbol_kind s = symbol_kind other)"

definition symbol_hash :: "platform \<Rightarrow> symbol \<Rightarrow> size_t" where
  \<comment> \<open>\<open>Symbol::hash\<close> (not virtual): \<open>h1 ^ (h2 << 1)\<close>\<close>
  "symbol_hash P s =
     (let h1 = hash_string P (name s);
          h2 = hash_int P (symbol_type_int (symbol_kind s))
      in h1 XOR push_bit 1 h2)"

fun symbol_to_string :: "platform \<Rightarrow> symbol \<Rightarrow> string" where
  \<comment> \<open>the virtual \<open>to_string\<close>; the two suffixes are the UTF-8 bytes of the source's
      double-struck C and superscript c\<close>
  "symbol_to_string P (Symbol n t) =
     (if t = COMPLEX then n @ [CHR 0xE2, CHR 0x84, CHR 0x82]
      else if t = CONSTANT then n @ [CHR 0xE1, CHR 0xB6, CHR 0x9C]
      else n)"
| "symbol_to_string P (ScalarSymbol n v) = n @ ''='' @ ostream_double P v"
| "symbol_to_string P (ComplexSymbol n re im) =
     n @ ''='' @ ostream_double P re @ (if d_ge_zero im then ''+'' else '''')
       @ ostream_double P im @ ''i''"

fun symbol_clone :: "symbol \<Rightarrow> symbol" where
  \<comment> \<open>the virtual \<open>clone\<close>\<close>
  "symbol_clone (Symbol n t) = Symbol n t"
| "symbol_clone (ScalarSymbol n v) = ScalarSymbol n v"
| "symbol_clone (ComplexSymbol n re im) = ComplexSymbol n re im"

section \<open>Expression trees (expression.h, expression.cpp)\<close>

text \<open>
  The four node classes that expression.cpp implements. Every node has the vector
  \<open>children_\<close> of the base class. The constructors of \<open>BinaryOpExpression\<close> and
  \<open>CommutatorExpression\<close> add two children, and no operation removes a child, so
  their first two children are fields of the constructor here and the list holds the
  children that the public \<open>add_child\<close> appended after them. A \<open>SymbolExpression\<close>
  is built with no child, a \<open>SumExpression\<close> keeps its terms in \<open>children_\<close> and a
  vector \<open>coefficients_\<close> beside them. The tag \<open>type_\<close> is fixed by the class except
  for \<open>BinaryOpExpression\<close>, whose constructor takes it. The enumerator \<open>SUM\<close> is
  written \<open>SUM'\<close>.
\<close>

datatype expression_type =
    SYMBOL | TENSOR | OPERATOR | OPERATOR_PRODUCT | ADD | SUBTRACT | MULTIPLY | DIVIDE
  | POWER | COMMUTATOR | ANTICOMMUTATOR | CONTRACT | SUM' | DERIVATIVE | INTEGRAL
  | FUNCTION_CALL

fun expression_type_int :: "expression_type \<Rightarrow> int" where
  "expression_type_int SYMBOL = 0"
| "expression_type_int TENSOR = 1"
| "expression_type_int OPERATOR = 2"
| "expression_type_int OPERATOR_PRODUCT = 3"
| "expression_type_int ADD = 4"
| "expression_type_int SUBTRACT = 5"
| "expression_type_int MULTIPLY = 6"
| "expression_type_int DIVIDE = 7"
| "expression_type_int POWER = 8"
| "expression_type_int COMMUTATOR = 9"
| "expression_type_int ANTICOMMUTATOR = 10"
| "expression_type_int CONTRACT = 11"
| "expression_type_int SUM' = 12"
| "expression_type_int DERIVATIVE = 13"
| "expression_type_int INTEGRAL = 14"
| "expression_type_int FUNCTION_CALL = 15"

datatype expression =
    SymbolExpression symbol "expression list"
  | BinaryOpExpression expression_type expression expression "expression list"
  | CommutatorExpression expression expression "expression list"
  | SumExpression "expression list" "double list"

fun type :: "expression \<Rightarrow> expression_type" where
  "type (SymbolExpression s cs) = SYMBOL"
| "type (BinaryOpExpression t l r cs) = t"
| "type (CommutatorExpression a b cs) = COMMUTATOR"
| "type (SumExpression cs ks) = SUM'"

fun children :: "expression \<Rightarrow> expression list" where
  "children (SymbolExpression s cs) = cs"
| "children (BinaryOpExpression t l r cs) = l # r # cs"
| "children (CommutatorExpression a b cs) = a # b # cs"
| "children (SumExpression cs ks) = cs"

definition num_children :: "expression \<Rightarrow> nat" where
  "num_children e = length (children e)"

definition is_binary :: "expression \<Rightarrow> bool" where
  "is_binary e = (length (children e) = 2)"

definition child :: "expression \<Rightarrow> nat \<Rightarrow> expression" where
  \<comment> \<open>\<open>*children_[i]\<close>; the code reads it only below \<open>num_children\<close>\<close>
  "child e i = children e ! i"

fun with_children :: "expression \<Rightarrow> expression list \<Rightarrow> expression" where
  \<comment> \<open>the node with its vector \<open>children_\<close> overwritten, everything else kept\<close>
  "with_children (SymbolExpression s cs) cs' = SymbolExpression s cs'"
| "with_children (BinaryOpExpression t l r cs) (l' # r' # cs') = BinaryOpExpression t l' r' cs'"
| "with_children (CommutatorExpression a b cs) (a' # b' # cs') = CommutatorExpression a' b' cs'"
| "with_children (SumExpression cs ks) cs' = SumExpression cs' ks"
| "with_children e cs' = e"

definition add_child :: "expression \<Rightarrow> expression \<Rightarrow> expression" where
  "add_child e c = with_children e (children e @ [c])"

definition set_child :: "expression \<Rightarrow> nat \<Rightarrow> expression \<Rightarrow> expression" where
  "set_child e i c =
     (if i < length (children e) then with_children e ((children e)[i := c]) else e)"

definition coefficient :: "double list \<Rightarrow> nat \<Rightarrow> double" where
  \<comment> \<open>\<open>SumExpression::coefficient\<close>, on the vector \<open>coefficients_\<close>\<close>
  "coefficient ks i = (if i < length ks then ks ! i else d_one)"

definition add_term :: "expression \<Rightarrow> expression \<Rightarrow> double \<Rightarrow> expression" where
  \<comment> \<open>\<open>SumExpression::add_term\<close>; it exists on a \<open>SumExpression\<close> only\<close>
  "add_term e t k =
     (case e of SumExpression cs ks \<Rightarrow> SumExpression (cs @ [t]) (ks @ [k]) | _ \<Rightarrow> e)"

fun operator_symbol :: "expression_type \<Rightarrow> string" where
  \<comment> \<open>\<open>set_operator_symbol\<close>, run by the constructor on the immutable \<open>type_\<close>\<close>
  "operator_symbol ADD = ''+''"
| "operator_symbol SUBTRACT = ''-''"
| "operator_symbol MULTIPLY = ''*''"
| "operator_symbol DIVIDE = ''/''"
| "operator_symbol POWER = ''^''"
| "operator_symbol _ = ''?''"

subsection \<open>Rendering\<close>

fun sum_to_string :: "platform \<Rightarrow> double list \<Rightarrow> nat \<Rightarrow> string list \<Rightarrow> string" where
  \<comment> \<open>the loop of \<open>SumExpression::to_string\<close> from index \<open>i\<close> on, over the
      rendered children\<close>
  "sum_to_string P ks i [] = ''''"
| "sum_to_string P ks i (s # ss) =
     (if 0 < i then '' + '' else '''')
     @ (let coeff = coefficient ks i
        in if d_ne coeff d_one then ostream_double P coeff @ ''*'' else '''')
     @ s
     @ sum_to_string P ks (i + 1) ss"

fun to_string :: "platform \<Rightarrow> expression \<Rightarrow> string" where
  "to_string P (SymbolExpression s cs) = symbol_to_string P s"
| "to_string P (BinaryOpExpression t l r cs) =
     (let need_parens_left = (type l = ADD \<or> type l = SUBTRACT);
          need_parens_right = (type r = ADD \<or> type r = SUBTRACT)
      in (if need_parens_left then ''('' else '''')
         @ to_string P l
         @ (if need_parens_left then '')'' else '''')
         @ '' '' @ operator_symbol t @ '' ''
         @ (if need_parens_right then ''('' else '''')
         @ to_string P r
         @ (if need_parens_right then '')'' else ''''))"
| "to_string P (CommutatorExpression a b cs) =
     ''['' @ to_string P a @ '', '' @ to_string P b @ '']''"
| "to_string P (SumExpression cs ks) =
     (if cs = [] then ''0'' else sum_to_string P ks 0 (map (to_string P) cs))"

subsection \<open>Deep copy\<close>

fun clone :: "expression \<Rightarrow> expression" where
  "clone (SymbolExpression s cs) = SymbolExpression (symbol_clone s) []"
| "clone (BinaryOpExpression t l r cs) = BinaryOpExpression t (clone l) (clone r) []"
| "clone (CommutatorExpression a b cs) = CommutatorExpression (clone a) (clone b) []"
| "clone (SumExpression cs ks) =
     SumExpression (map clone cs) (map (coefficient ks) [0..<length cs])"

subsection \<open>Structural equality and hashing\<close>

text \<open>
  \<open>equals\<close> is virtual and dispatches on the class of the left node; each override
  compares the tag and then casts the other node to its own class, so two nodes of
  different classes are never equal. The loop of \<open>SumExpression::equals\<close> returns
  false at the first index whose children differ or whose coefficients differ under
  \<open>!=\<close>; its result is the conjunction over all indices.
\<close>

fun equals :: "expression \<Rightarrow> expression \<Rightarrow> bool" where
  "equals (SymbolExpression s cs) (SymbolExpression s' cs') = symbol_eq s s'"
| "equals (BinaryOpExpression t l r cs) (BinaryOpExpression t' l' r' cs') =
     (t' = t \<and> equals l l' \<and> equals r r')"
| "equals (CommutatorExpression a b cs) (CommutatorExpression a' b' cs') =
     (equals a a' \<and> equals b b')"
| "equals (SumExpression cs ks) (SumExpression cs' ks') =
     (length cs' = length cs
      \<and> list_all2 equals cs cs'
      \<and> list_all (\<lambda>i. \<not> d_ne (coefficient ks i) (coefficient ks' i)) [0..<length cs])"
| "equals _ _ = False"

definition hash_combine :: "size_t \<Rightarrow> size_t \<Rightarrow> size_t" where
  \<comment> \<open>\<open>seed ^= h + 0x9e3779b9 + (seed << 6) + (seed >> 2)\<close>\<close>
  "hash_combine seed h = seed XOR (h + 0x9e3779b9 + push_bit 6 seed + drop_bit 2 seed)"

fun sum_hash :: "platform \<Rightarrow> double list \<Rightarrow> nat \<Rightarrow> size_t \<Rightarrow> size_t list \<Rightarrow> size_t" where
  \<comment> \<open>the loop of \<open>SumExpression::hash\<close> from index \<open>i\<close> on, over the children's
      hashes\<close>
  "sum_hash P ks i seed [] = seed"
| "sum_hash P ks i seed (h # hs) =
     sum_hash P ks (i + 1)
       (hash_combine (hash_combine seed h) (hash_double P (coefficient ks i))) hs"

fun hash :: "platform \<Rightarrow> expression \<Rightarrow> size_t" where
  "hash P (SymbolExpression s cs) = symbol_hash P s"
| "hash P (BinaryOpExpression t l r cs) =
     hash_combine (hash_combine (hash_int P (expression_type_int t)) (hash P l)) (hash P r)"
| "hash P (CommutatorExpression a b cs) =
     hash_combine (hash_combine (hash_int P (expression_type_int COMMUTATOR)) (hash P a))
       (hash P b)"
| "hash P (SumExpression cs ks) =
     sum_hash P ks 0 (hash_int P (expression_type_int SUM')) (map (hash P) cs)"

subsection \<open>ExpressionFactory\<close>

definition symbol :: "symbol \<Rightarrow> expression" where
  "symbol s = SymbolExpression (symbol_clone s) []"

definition add :: "expression \<Rightarrow> expression \<Rightarrow> expression" where
  "add left right = BinaryOpExpression ADD left right []"

definition subtract :: "expression \<Rightarrow> expression \<Rightarrow> expression" where
  "subtract left right = BinaryOpExpression SUBTRACT left right []"

definition multiply :: "expression \<Rightarrow> expression \<Rightarrow> expression" where
  "multiply left right = BinaryOpExpression MULTIPLY left right []"

definition divide_expr :: "expression \<Rightarrow> expression \<Rightarrow> expression" where
  "divide_expr left right = BinaryOpExpression DIVIDE left right []"

definition power_expr :: "expression \<Rightarrow> expression \<Rightarrow> expression" where
  "power_expr base exponent = BinaryOpExpression POWER base exponent []"

definition commutator :: "expression \<Rightarrow> expression \<Rightarrow> expression" where
  "commutator A B = CommutatorExpression A B []"

definition sum_expr :: "expression list \<Rightarrow> expression" where
  \<comment> \<open>\<open>ExpressionFactory::sum\<close>: \<open>add_term(term->clone())\<close> for every term\<close>
  "sum_expr terms = foldl (\<lambda>result t. add_term result (clone t) d_one) (SumExpression [] []) terms"

definition zero :: expression where
  "zero = symbol (ScalarSymbol ''0'' d_zero)"

definition one :: expression where
  "one = symbol (ScalarSymbol ''1'' d_one)"

definition constant_expr :: "platform \<Rightarrow> double \<Rightarrow> expression" where
  "constant_expr P v = symbol (ScalarSymbol (to_string_double P v) v)"

section \<open>Rewrite rules (simplifier.cpp)\<close>

text \<open>
  A rule maps an expression to a replacement or to nothing (\<open>nullptr\<close>); it looks at
  the root of the expression it is given.
\<close>

type_synonym rule = "expression \<Rightarrow> expression option"

definition get_scalar_value :: "expression \<Rightarrow> double option" where
  \<comment> \<open>the test that the algebraic rules repeat on an operand: the tag is \<open>SYMBOL\<close>,
      the node casts to \<open>SymbolExpression\<close>, its symbol \<open>is_scalar()\<close> and casts to
      \<open>ScalarSymbol\<close>; then its number is read\<close>
  "get_scalar_value e =
     (if type e = SYMBOL then
        (case e of
           SymbolExpression s cs \<Rightarrow>
             (if is_scalar s then
                (case s of ScalarSymbol n v \<Rightarrow> Some v | _ \<Rightarrow> None)
              else None)
         | _ \<Rightarrow> None)
      else None)"

definition check_zero :: "expression \<Rightarrow> bool" where
  \<comment> \<open>\<open>scalar && scalar->value() == 0.0\<close>\<close>
  "check_zero e = (case get_scalar_value e of Some v \<Rightarrow> d_eq v d_zero | None \<Rightarrow> False)"

definition check_one :: "expression \<Rightarrow> bool" where
  \<comment> \<open>\<open>scalar && scalar->value() == 1.0\<close>\<close>
  "check_one e = (case get_scalar_value e of Some v \<Rightarrow> d_eq v d_one | None \<Rightarrow> False)"

subsection \<open>DistributiveRules\<close>

definition distribute_multiplication :: rule where
  "distribute_multiplication expr =
     (if type expr \<noteq> MULTIPLY \<or> \<not> is_binary expr then None
      else
        let left = child expr 0; right = child expr 1 in
        if type left = ADD \<or> type left = SUM' then
          (if type right = ADD \<or> type right = SUM' then
             (if type left = ADD \<and> type right = ADD then
                let ac = multiply (clone (child left 0)) (clone (child right 0));
                    ad = multiply (clone (child left 0)) (clone (child right 1));
                    bc = multiply (clone (child left 1)) (clone (child right 0));
                    bd = multiply (clone (child left 1)) (clone (child right 1));
                    result = SumExpression [] [];
                    result = add_term result ac d_one;
                    result = add_term result ad d_one;
                    result = add_term result bc d_one;
                    result = add_term result bd d_one
                in Some result
              else None)
           else
             (if type left = ADD then
                let ac = multiply (clone (child left 0)) (clone right);
                    bc = multiply (clone (child left 1)) (clone right)
                in Some (add ac bc)
              else None))
        else if type right = ADD \<or> type right = SUM' then
          (if type right = ADD then
             let ab = multiply (clone left) (clone (child right 0));
                 ac = multiply (clone left) (clone (child right 1))
             in Some (add ab ac)
           else None)
        else None)"

definition factor_common_terms :: rule where
  "factor_common_terms expr =
     (if type expr \<noteq> ADD \<or> \<not> is_binary expr then None
      else
        let left = child expr 0; right = child expr 1 in
        if type left = MULTIPLY \<and> type right = MULTIPLY then
          (if is_binary left \<and> is_binary right then
             (if equals (child left 1) (child right 1) then
                let s = add (clone (child left 0)) (clone (child right 0))
                in Some (multiply s (clone (child left 1)))
              else if equals (child left 0) (child right 0) then
                let s = add (clone (child left 1)) (clone (child right 1))
                in Some (multiply (clone (child left 0)) s)
              else None)
           else None)
        else None)"

definition distribute_over_subtraction :: rule where
  "distribute_over_subtraction expr =
     (if type expr \<noteq> MULTIPLY \<or> \<not> is_binary expr then None
      else
        let left = child expr 0; right = child expr 1 in
        if type right = SUBTRACT \<and> is_binary right then
          let ab = multiply (clone left) (clone (child right 0));
              ac = multiply (clone left) (clone (child right 1))
          in Some (subtract ab ac)
        else if type left = SUBTRACT \<and> is_binary left then
          let ac = multiply (clone (child left 0)) (clone right);
              bc = multiply (clone (child left 1)) (clone right)
          in Some (subtract ac bc)
        else None)"

subsection \<open>AlgebraicRules\<close>

definition identity_addition :: rule where
  "identity_addition expr =
     (if type expr \<noteq> ADD \<or> \<not> is_binary expr then None
      else
        let left = child expr 0; right = child expr 1 in
        if check_zero left then Some (clone right)
        else if check_zero right then Some (clone left)
        else None)"

definition identity_multiplication :: rule where
  "identity_multiplication expr =
     (if type expr \<noteq> MULTIPLY \<or> \<not> is_binary expr then None
      else
        let left = child expr 0; right = child expr 1 in
        if check_one left then Some (clone right)
        else if check_one right then Some (clone left)
        else None)"

definition zero_multiplication :: rule where
  "zero_multiplication expr =
     (if type expr \<noteq> MULTIPLY \<or> \<not> is_binary expr then None
      else
        let left = child expr 0; right = child expr 1 in
        if check_zero left \<or> check_zero right then Some zero
        else None)"

definition combine_constants :: "platform \<Rightarrow> rule" where
  "combine_constants P expr =
     (if type expr = ADD \<and> is_binary expr then
        (let left_val = get_scalar_value (child expr 0);
             right_val = get_scalar_value (child expr 1)
         in case (left_val, right_val) of
              (Some l, Some r) \<Rightarrow> Some (constant_expr P (double_add P l r))
            | _ \<Rightarrow> None)
      else if type expr = MULTIPLY \<and> is_binary expr then
        (let left_val = get_scalar_value (child expr 0);
             right_val = get_scalar_value (child expr 1)
         in case (left_val, right_val) of
              (Some l, Some r) \<Rightarrow> Some (constant_expr P (double_mul P l r))
            | _ \<Rightarrow> None)
      else None)"

subsection \<open>CommutatorRules\<close>

definition antisymmetry :: rule where
  "antisymmetry expr =
     (if type expr \<noteq> COMMUTATOR \<or> \<not> is_binary expr then None else None)"

definition zero_commutator :: rule where
  "zero_commutator expr =
     (if type expr \<noteq> COMMUTATOR \<or> \<not> is_binary expr then None
      else
        let A = child expr 0; B = child expr 1 in
        if equals A B then Some zero else None)"

definition expand_commutator :: rule where
  "expand_commutator expr =
     (if type expr \<noteq> COMMUTATOR \<or> \<not> is_binary expr then None
      else
        let A = child expr 0; B = child expr 1;
            AB = multiply (clone A) (clone B);
            BA = multiply (clone B) (clone A)
        in Some (subtract AB BA))"

section \<open>The simplifier (simplifier.h, simplifier.cpp)\<close>

text \<open>
  \<open>RuleType\<close> has three enumerators whose names are also tags of
  \<open>Expression::Type\<close>; they carry the suffix \<open>_RULES\<close> here. The member \<open>rules_\<close>
  is an unordered map from rule type to a vector of rules. The trace log, which
  \<open>log_trace\<close> appends to and \<open>simplify\<close> never reads, is left out.
\<close>

datatype rule_type =
    ALGEBRAIC | DISTRIBUTIVE | ASSOCIATIVE | COMMUTATIVE | TENSOR_RULES | OPERATOR_RULES
  | COMMUTATOR_RULES | INDEX | SYMMETRY

type_synonym rule_table = "rule_type \<rightharpoonup> rule list"

definition push_back_rule :: "rule_table \<Rightarrow> rule_type \<Rightarrow> rule \<Rightarrow> rule_table" where
  \<comment> \<open>\<open>rules_[t].push_back(r)\<close>: \<open>operator[]\<close> makes the empty vector of a new key\<close>
  "push_back_rule rules t r =
     rules(t \<mapsto> (case rules t of None \<Rightarrow> [] | Some rs \<Rightarrow> rs) @ [r])"

definition initialize_default_rules :: "platform \<Rightarrow> rule_table" where
  "initialize_default_rules P =
     (let rules = Map.empty;
          rules = push_back_rule rules DISTRIBUTIVE distribute_multiplication;
          rules = push_back_rule rules DISTRIBUTIVE factor_common_terms;
          rules = push_back_rule rules DISTRIBUTIVE distribute_over_subtraction;
          rules = push_back_rule rules ALGEBRAIC identity_addition;
          rules = push_back_rule rules ALGEBRAIC identity_multiplication;
          rules = push_back_rule rules ALGEBRAIC zero_multiplication;
          rules = push_back_rule rules ALGEBRAIC (combine_constants P);
          rules = push_back_rule rules COMMUTATOR_RULES antisymmetry;
          rules = push_back_rule rules COMMUTATOR_RULES zero_commutator;
          rules = push_back_rule rules COMMUTATOR_RULES expand_commutator
      in rules)"

fun apply_rules :: "expression \<Rightarrow> rule list \<Rightarrow> expression option" where
  "apply_rules expr [] = None"
| "apply_rules expr (r # rules) =
     (case r expr of Some result \<Rightarrow> Some result | None \<Rightarrow> apply_rules expr rules)"

definition rule_order :: "rule_type list" where
  "rule_order = [ALGEBRAIC, DISTRIBUTIVE, COMMUTATOR_RULES, TENSOR_RULES, OPERATOR_RULES, SYMMETRY]"

definition max_iterations :: nat where
  "max_iterations = 10"

definition category_step ::
  "platform \<Rightarrow> rule_table \<Rightarrow> expression \<times> bool \<Rightarrow> rule_type \<Rightarrow> expression \<times> bool" where
  \<comment> \<open>the body of the \<open>for\<close> loop over \<open>rule_order\<close>, on the variables \<open>result\<close> and
      \<open>changed\<close>\<close>
  "category_step P rules st rule_type =
     (let (result, changed) = st in
      case rules rule_type of
        None \<Rightarrow> (result, changed)
      | Some rs \<Rightarrow>
          (case apply_rules result rs of
             None \<Rightarrow> (result, changed)
           | Some new_expr \<Rightarrow>
               if to_string P new_expr \<noteq> to_string P result then (new_expr, True)
               else (result, changed)))"

definition simplify_pass :: "platform \<Rightarrow> rule_table \<Rightarrow> expression \<Rightarrow> expression \<times> bool" where
  \<comment> \<open>one run of the body of the \<open>while\<close> loop: \<open>changed = false\<close>, then the \<open>for\<close>
      loop\<close>
  "simplify_pass P rules result = foldl (category_step P rules) (result, False) rule_order"

function simplify_loop ::
  "platform \<Rightarrow> rule_table \<Rightarrow> expression \<Rightarrow> bool \<Rightarrow> nat \<Rightarrow> expression \<times> nat" where
  "simplify_loop P rules result changed iterations =
     (if changed \<and> iterations < max_iterations then
        (let (result', changed') = simplify_pass P rules result
         in simplify_loop P rules result' changed' (iterations + 1))
      else (result, iterations))"
  by pat_completeness auto
termination
  by (relation "measure (\<lambda>(P, rules, result, changed, iterations). max_iterations - iterations)")
    auto

definition simplify :: "platform \<Rightarrow> rule_table \<Rightarrow> expression \<Rightarrow> expression" where
  "simplify P rules expr = fst (simplify_loop P rules (clone expr) True 0)"

section \<open>Auxiliary definitions for the statements\<close>

text \<open>
  \<open>nan_free e\<close>: no coefficient that \<open>equals\<close> compares inside \<open>e\<close> is a NaN. The
  coefficients compared are those that \<open>coefficient(i)\<close> returns below the number of
  terms of each sum reached through the compared children.
\<close>

fun nan_free :: "expression \<Rightarrow> bool" where
  "nan_free (SymbolExpression s cs) = True"
| "nan_free (BinaryOpExpression t l r cs) = (nan_free l \<and> nan_free r)"
| "nan_free (CommutatorExpression a b cs) = (nan_free a \<and> nan_free b)"
| "nan_free (SumExpression cs ks) =
     (list_all nan_free cs \<and> list_all (\<lambda>i. \<not> d_isnan (coefficient ks i)) [0..<length cs])"

definition variable :: "string \<Rightarrow> expression" where
  \<comment> \<open>\<open>ExpressionFactory::symbol(Symbol(n))\<close>: the constructor's default kind is
      \<open>VARIABLE\<close>\<close>
  "variable n = symbol (Symbol n VARIABLE)"

definition full_simplification_expr :: "string \<Rightarrow> string \<Rightarrow> expression" where
  \<comment> \<open>the expression \<open>(x + 0) * (y + 1*0) + 0\<close>, built as
      \<open>demonstrate_full_simplification\<close> of examples/main.cpp builds it\<close>
  "full_simplification_expr xn yn =
     (let x = variable xn;
          y = variable yn;
          x_plus_zero = add x zero;
          one_times_zero = multiply one zero;
          y_plus_one_times_zero = add y one_times_zero;
          product = multiply x_plus_zero y_plus_one_times_zero
      in add product zero)"

definition operand_string :: "platform \<Rightarrow> expression \<Rightarrow> string" where
  \<comment> \<open>an operand as \<open>BinaryOpExpression::to_string\<close> writes it: in parentheses when
      its tag is \<open>ADD\<close> or \<open>SUBTRACT\<close>\<close>
  "operand_string P c =
     (if type c = ADD \<or> type c = SUBTRACT then ''('' @ to_string P c @ '')''
      else to_string P c)"

definition prints_zero :: "platform \<Rightarrow> bool" where
  \<comment> \<open>an output stream in its default state writes \<open>0.0\<close> as \<open>0\<close>\<close>
  "prints_zero P = (ostream_double P d_zero = ''0'')"

subsection \<open>A concrete platform for the closed examples\<close>

text \<open>
  The closed examples need the library functions at a few values. This platform prints
  \<open>0.0\<close>, \<open>-0.0\<close>, \<open>1.0\<close> and a NaN as a C++ stream does (\<open>0\<close>, \<open>-0\<close>, \<open>1\<close>,
  \<open>nan\<close>) and formats \<open>0.0\<close> and \<open>1.0\<close> as \<open>std::to_string\<close> does; the examples
  print no other number and add or multiply none, and on all other arguments these four
  fields are placeholders. The hash functions are total: FNV-1a on the bytes of a
  string, the identity on an int, and on a double its bit pattern with both zeros sent
  to 0, which respects \<open>==\<close>.
\<close>

definition fnv1a :: "string \<Rightarrow> size_t" where
  "fnv1a s = foldl (\<lambda>h c. (h XOR of_nat (of_char c)) * 1099511628211) 14695981039346656037 s"

definition sample_platform :: platform where
  "sample_platform = \<lparr>
     double_add = (\<lambda>a b. d_nan),
     double_mul = (\<lambda>a b. d_nan),
     ostream_double =
       (\<lambda>d. if d = 0 then ''0'' else if d = 0x8000000000000000 then ''-0''
            else if d = d_one then ''1'' else ''nan''),
     to_string_double =
       (\<lambda>d. if d = 0 then ''0.000000'' else if d = d_one then ''1.000000'' else ''nan''),
     hash_string = fnv1a,
     hash_int = of_int,
     hash_double = (\<lambda>d. if d_iszero d then 0 else d) \<rparr>"

definition sample_rules :: rule_table where
  "sample_rules = initialize_default_rules sample_platform"

definition nan_sum :: expression where
  \<comment> \<open>\<open>SumExpression s; s.add_term(x, NaN)\<close>\<close>
  "nan_sum = add_term (SumExpression [] []) (variable ''x'') d_nan"

definition ping_pong :: expression where
  \<comment> \<open>\<open>a*x + b*x\<close>, which \<open>factor_common_terms\<close> and \<open>distribute_multiplication\<close>
      rewrite into each other\<close>
  "ping_pong = add (multiply (variable ''a'') (variable ''x''))
                   (multiply (variable ''b'') (variable ''x''))"

definition flip_rules :: rule_table where
  \<comment> \<open>a rule table other than the default one: its algebraic rule rewrites everything
      to \<open>b\<close>, its distributive rule everything to \<open>a\<close>\<close>
  "flip_rules =
     [ALGEBRAIC \<mapsto> [\<lambda>e. Some (variable ''b'')],
      DISTRIBUTIVE \<mapsto> [\<lambda>e. Some (variable ''a'')]]"

section \<open>Lemmas\<close>

subsection \<open>Accessors and the operand tests of the algebraic rules\<close>

lemma children_with_children:
  "length cs' = length (children e) \<Longrightarrow> children (with_children e cs') = cs'"
  by (cases e; cases cs'; (cases "tl cs'")?; simp)

lemma type_with_children: "type (with_children e cs') = type e"
  by (induction e cs' rule: with_children.induct) simp_all

lemma with_children_twice:
  "length cs' = length (children e) \<Longrightarrow> with_children (with_children e cs') (children e) = e"
  by (cases e; cases cs'; (cases "tl cs'")?; simp)

lemma child_BinaryOp [simp]:
  "child (BinaryOpExpression t l r cs) 0 = l"
  "child (BinaryOpExpression t l r cs) 1 = r"
  "child (BinaryOpExpression t l r cs) (Suc 0) = r"
  by (simp_all add: child_def)

lemma child_Commutator [simp]:
  "child (CommutatorExpression a b cs) 0 = a"
  "child (CommutatorExpression a b cs) 1 = b"
  "child (CommutatorExpression a b cs) (Suc 0) = b"
  by (simp_all add: child_def)

lemma is_binary_simps [simp]:
  "is_binary (BinaryOpExpression t l r cs) = (cs = [])"
  "is_binary (CommutatorExpression a b cs) = (cs = [])"
  "is_binary (SymbolExpression s cs) = (length cs = 2)"
  "is_binary (SumExpression cs ks) = (length cs = 2)"
  by (simp_all add: is_binary_def)

lemma type_eq_iff:
  "type e = ADD \<longleftrightarrow> (\<exists>l r cs. e = BinaryOpExpression ADD l r cs)"
  "type e = SUBTRACT \<longleftrightarrow> (\<exists>l r cs. e = BinaryOpExpression SUBTRACT l r cs)"
  "type e = MULTIPLY \<longleftrightarrow> (\<exists>l r cs. e = BinaryOpExpression MULTIPLY l r cs)"
  by (cases e; simp)+

lemma type_clone [simp]: "type (clone e) = type e"
  by (cases e) simp_all

lemma symbol_clone_id [simp]: "symbol_clone s = s"
  by (cases s) simp_all

lemma get_scalar_value_iff:
  "get_scalar_value e = Some v \<longleftrightarrow> (\<exists>n cs. e = SymbolExpression (ScalarSymbol n v) cs)"
  by (auto simp: get_scalar_value_def is_scalar_def split: expression.splits symbol.splits)

lemma get_scalar_value_ScalarSymbol [simp]:
  "get_scalar_value (SymbolExpression (ScalarSymbol n v) cs) = Some v"
  by (simp add: get_scalar_value_def is_scalar_def)

lemma check_zero_iff:
  "check_zero e \<longleftrightarrow> (\<exists>n v cs. e = SymbolExpression (ScalarSymbol n v) cs \<and> d_eq v d_zero)"
  by (auto simp: check_zero_def get_scalar_value_iff split: option.splits)

lemma check_one_iff:
  "check_one e \<longleftrightarrow> (\<exists>n v cs. e = SymbolExpression (ScalarSymbol n v) cs \<and> d_eq v d_one)"
  by (auto simp: check_one_def get_scalar_value_iff split: option.splits)

lemma identity_addition_add:
  "identity_addition (add l r) =
     (if check_zero l then Some (clone r) else if check_zero r then Some (clone l) else None)"
  by (simp add: identity_addition_def add_def)

lemma identity_multiplication_multiply:
  "identity_multiplication (multiply l r) =
     (if check_one l then Some (clone r) else if check_one r then Some (clone l) else None)"
  by (simp add: identity_multiplication_def multiply_def)

lemma zero_multiplication_multiply:
  "zero_multiplication (multiply l r) =
     (if check_zero l \<or> check_zero r then Some zero else None)"
  by (simp add: zero_multiplication_def multiply_def)


subsection \<open>Deep copy, equality and hashing\<close>

lemma coefficient_map_coefficient:
  "i < n \<Longrightarrow> coefficient (map (coefficient ks) [0..<n]) i = coefficient ks i"
  by (simp add: coefficient_def)

lemma sum_to_string_cong:
  "(\<And>j. j < length ss \<Longrightarrow> coefficient ks (i + j) = coefficient ks' (i + j))
   \<Longrightarrow> sum_to_string P ks i ss = sum_to_string P ks' i ss"
proof (induction ss arbitrary: i)
  case Nil
  then show ?case by simp
next
  case (Cons s ss)
  have head: "coefficient ks i = coefficient ks' i"
    using Cons.prems [of 0] by simp
  have "\<And>j. j < length ss \<Longrightarrow> coefficient ks (Suc i + j) = coefficient ks' (Suc i + j)"
    using Cons.prems [of "Suc j" for j] by simp
  then have "sum_to_string P ks (Suc i) ss = sum_to_string P ks' (Suc i) ss"
    by (rule Cons.IH)
  with head show ?case by simp
qed

lemma to_string_clone [simp]: "to_string P (clone e) = to_string P e"
proof (induction e)
  case (SumExpression cs ks)
  have m: "map (to_string P) (map clone cs) = map (to_string P) cs"
    using SumExpression by simp
  have s: "sum_to_string P (map (coefficient ks) [0..<length cs]) 0 (map (to_string P) cs)
      = sum_to_string P ks 0 (map (to_string P) cs)"
    by (rule sum_to_string_cong) (simp add: coefficient_map_coefficient)
  show ?case
    by (simp only: clone.simps to_string.simps m s map_is_Nil_conv)
qed simp_all

lemma sum_hash_cong:
  "(\<And>j. j < length hs \<Longrightarrow>
      hash_double P (coefficient ks (i + j)) = hash_double P (coefficient ks' (i + j)))
   \<Longrightarrow> sum_hash P ks i seed hs = sum_hash P ks' i seed hs"
proof (induction hs arbitrary: i seed)
  case Nil
  then show ?case by simp
next
  case (Cons h hs)
  have head: "hash_double P (coefficient ks i) = hash_double P (coefficient ks' i)"
    using Cons.prems [of 0] by simp
  have "\<And>j. j < length hs \<Longrightarrow>
      hash_double P (coefficient ks (Suc i + j)) = hash_double P (coefficient ks' (Suc i + j))"
    using Cons.prems [of "Suc j" for j] by simp
  then have "\<And>seed. sum_hash P ks (Suc i) seed hs = sum_hash P ks' (Suc i) seed hs"
    by (rule Cons.IH)
  with head show ?case by simp
qed

lemma hash_clone [simp]: "hash P (clone e) = hash P e"
proof (induction e)
  case (SumExpression cs ks)
  have m: "map (hash P) (map clone cs) = map (hash P) cs"
    using SumExpression by simp
  have s: "sum_hash P (map (coefficient ks) [0..<length cs]) 0 seed (map (hash P) cs)
      = sum_hash P ks 0 seed (map (hash P) cs)" for seed
    by (rule sum_hash_cong) (simp add: coefficient_map_coefficient)
  show ?case
    by (simp only: clone.simps hash.simps m s)
qed simp_all

lemma equals_clone_left [simp]: "equals (clone a) b = equals a b"
proof (induction a b rule: equals.induct)
  case (4 cs ks cs' ks')
  have "list_all2 equals (map clone cs) cs' = list_all2 (\<lambda>x y. equals (clone x) y) cs cs'"
    by (simp add: list_all2_map1)
  also have "\<dots> = list_all2 equals cs cs'"
    by (rule list.rel_cong) (simp_all add: 4)
  finally have m: "list_all2 equals (map clone cs) cs' = list_all2 equals cs cs'" .
  have c: "list_all (\<lambda>i. \<not> d_ne (coefficient (map (coefficient ks) [0..<length cs]) i) (coefficient ks' i))
             [0..<length cs]
         = list_all (\<lambda>i. \<not> d_ne (coefficient ks i) (coefficient ks' i)) [0..<length cs]"
    by (simp add: list_all_iff coefficient_map_coefficient)
  show ?case
    by (simp only: clone.simps equals.simps m c length_map)
qed simp_all


lemma equals_clone_right [simp]: "equals a (clone b) = equals a b"
proof (induction a b rule: equals.induct)
  case (4 cs ks cs' ks')
  have "list_all2 equals cs (map clone cs') = list_all2 (\<lambda>x y. equals x (clone y)) cs cs'"
    by (simp add: list_all2_map2)
  also have "\<dots> = list_all2 equals cs cs'"
    by (rule list.rel_cong) (simp_all add: 4)
  finally have m: "list_all2 equals cs (map clone cs') = list_all2 equals cs cs'" .
  show ?case
  proof (cases "length cs' = length cs")
    case True
    have "list_all (\<lambda>i. \<not> d_ne (coefficient ks i) (coefficient (map (coefficient ks') [0..<length cs']) i))
             [0..<length cs]
         = list_all (\<lambda>i. \<not> d_ne (coefficient ks i) (coefficient ks' i)) [0..<length cs]"
      by (simp add: list_all_iff coefficient_map_coefficient True)
    then show ?thesis
      by (simp only: clone.simps equals.simps m length_map)
  next
    case False
    then show ?thesis by simp
  qed
qed simp_all

lemma clone_clone [simp]: "clone (clone e) = clone e"
proof (induction e)
  case (SumExpression cs ks)
  have "map (coefficient (map (coefficient ks) [0..<length cs])) [0..<length cs]
      = map (coefficient ks) [0..<length cs]"
    by (simp add: coefficient_map_coefficient)
  with SumExpression show ?case by simp
qed simp_all

lemma d_ne_same [simp]: "d_ne k k \<longleftrightarrow> d_isnan k"
  by (simp add: d_ne_def d_eq_def)

lemma equals_refl_iff: "equals e e \<longleftrightarrow> nan_free e"
proof (induction e)
  case (SumExpression cs ks)
  have "list_all2 equals cs cs = list_all nan_free cs"
    using SumExpression by (simp add: list_all2_same list_all_iff)
  then show ?case by simp
qed (simp_all add: symbol_eq_def)

lemma nan_free_clone [simp]: "nan_free (clone e) = nan_free e"
  using equals_refl_iff [of "clone e"] equals_refl_iff [of e] by simp

lemma symbol_eq_hash: "symbol_eq s s' \<Longrightarrow> symbol_hash P s = symbol_hash P s'"
  by (simp add: symbol_eq_def symbol_hash_def)

lemma equals_imp_hash:
  assumes "hash_respects_eq P"
  shows "equals a b \<Longrightarrow> hash P a = hash P b"
proof (induction a b rule: equals.induct)
  case (1 s cs s' cs')
  then show ?case by (simp add: symbol_eq_hash)
next
  case (2 t l r cs t' l' r' cs')
  then show ?case by simp
next
  case (3 a b cs a' b' cs')
  then show ?case by simp
next
  case (4 cs ks cs' ks')
  from "4.prems" have len: "length cs' = length cs"
    and all2: "list_all2 equals cs cs'"
    and coeff: "\<And>i. i < length cs \<Longrightarrow> d_eq (coefficient ks i) (coefficient ks' i)"
    by (simp_all add: list_all_iff d_ne_def)
  have "hash P (cs ! i) = hash P (cs' ! i)" if "i < length cs" for i
  proof -
    from that len have "cs ! i \<in> set cs" "cs' ! i \<in> set cs'" by simp_all
    moreover from all2 that have "equals (cs ! i) (cs' ! i)"
      by (simp add: list_all2_conv_all_nth)
    ultimately show ?thesis by (rule "4.IH")
  qed
  then have m: "map (hash P) cs = map (hash P) cs'"
    using len by (intro nth_equalityI) simp_all
  have "hash_double P (coefficient ks (0 + j)) = hash_double P (coefficient ks' (0 + j))"
    if "j < length (map (hash P) cs)" for j
    using that coeff [of j] assms by (simp add: hash_respects_eq_def)
  then have "sum_hash P ks 0 seed (map (hash P) cs) = sum_hash P ks' 0 seed (map (hash P) cs)"
    for seed
    by (rule sum_hash_cong)
  then show ?case by (simp add: m)
qed simp_all

subsection \<open>Passes of the simplifier\<close>

lemma default_rules_lookup:
  "initialize_default_rules P ALGEBRAIC =
     Some [identity_addition, identity_multiplication, zero_multiplication, combine_constants P]"
  "initialize_default_rules P DISTRIBUTIVE =
     Some [distribute_multiplication, factor_common_terms, distribute_over_subtraction]"
  "initialize_default_rules P COMMUTATOR_RULES =
     Some [antisymmetry, zero_commutator, expand_commutator]"
  "initialize_default_rules P TENSOR_RULES = None"
  "initialize_default_rules P OPERATOR_RULES = None"
  "initialize_default_rules P SYMMETRY = None"
  by (simp_all add: initialize_default_rules_def push_back_rule_def)

lemma simplify_pass_unfold:
  "simplify_pass P rules e =
     category_step P rules
       (category_step P rules
         (category_step P rules
           (category_step P rules
             (category_step P rules
               (category_step P rules (e, False) ALGEBRAIC)
               DISTRIBUTIVE)
             COMMUTATOR_RULES)
           TENSOR_RULES)
         OPERATOR_RULES)
       SYMMETRY"
  by (simp add: simplify_pass_def rule_order_def)

lemma category_step_pair:
  "category_step P rules (e, ch) rt =
     (case rules rt of
        None \<Rightarrow> (e, ch)
      | Some rs \<Rightarrow>
          (case apply_rules e rs of
             None \<Rightarrow> (e, ch)
           | Some new \<Rightarrow> if to_string P new \<noteq> to_string P e then (new, True) else (e, ch)))"
  by (simp add: category_step_def)

lemma algebraic_no_match:
  "type e \<noteq> ADD \<Longrightarrow> type e \<noteq> MULTIPLY \<Longrightarrow>
   apply_rules e [identity_addition, identity_multiplication, zero_multiplication,
     combine_constants P] = None"
  by (simp add: identity_addition_def identity_multiplication_def zero_multiplication_def
      combine_constants_def)

lemma distributive_no_match:
  "type e \<noteq> ADD \<Longrightarrow> type e \<noteq> MULTIPLY \<Longrightarrow>
   apply_rules e [distribute_multiplication, factor_common_terms, distribute_over_subtraction]
     = None"
  by (simp add: distribute_multiplication_def factor_common_terms_def
      distribute_over_subtraction_def)

lemma commutator_no_match:
  "type e \<noteq> COMMUTATOR \<Longrightarrow>
   apply_rules e [antisymmetry, zero_commutator, expand_commutator] = None"
  by (simp add: antisymmetry_def zero_commutator_def expand_commutator_def)

lemma simplify_pass_fixed:
  assumes "type e \<noteq> ADD" "type e \<noteq> MULTIPLY" "type e \<noteq> COMMUTATOR"
  shows "simplify_pass P (initialize_default_rules P) e = (e, False)"
  by (simp add: simplify_pass_unfold default_rules_lookup category_step_pair
      algebraic_no_match distributive_no_match commutator_no_match assms
      del: apply_rules.simps)

lemma simplify_loop_stop:
  "simplify_pass P rules e = (e', False) \<Longrightarrow> i < max_iterations \<Longrightarrow>
   simplify_loop P rules e True i = (e', Suc i)"
  by simp

lemma simplify_loop_continue:
  "simplify_pass P rules e = (e', True) \<Longrightarrow> i < max_iterations \<Longrightarrow>
   simplify_loop P rules e True i = simplify_loop P rules e' True (Suc i)"
  by simp

lemma zero_commutator_self:
  "zero_commutator (CommutatorExpression a a []) = (if nan_free a then Some zero else None)"
  by (simp add: zero_commutator_def equals_refl_iff)

lemma to_string_zero: "to_string P zero = ''0='' @ ostream_double P d_zero"
  by (simp add: zero_def symbol_def)

lemma type_zero [simp]: "type zero = SYMBOL"
  by (simp add: zero_def symbol_def)

lemma one_zero_simps [simp]:
  "check_zero zero" "\<not> check_zero one" "check_one one" "\<not> check_one zero"
  "clone zero = zero" "clone one = one" "type one = SYMBOL"
  by (simp_all add: check_zero_def check_one_def zero_def one_def symbol_def d_eq_def d_isnan_def
      d_abs_bits_def d_zero_def d_one_def d_iszero_def)

lemma check_symbol_leaf [simp]:
  "\<not> check_zero (symbol (Symbol n t))" "\<not> check_one (symbol (Symbol n t))"
  "clone (symbol s) = symbol s" "type (symbol s) = SYMBOL" "nan_free (symbol s)"
  by (simp_all add: check_zero_def check_one_def symbol_def get_scalar_value_def is_scalar_def)

lemma variable_simps [simp]:
  "\<not> check_zero (variable n)" "\<not> check_one (variable n)"
  "clone (variable n) = variable n" "type (variable n) = SYMBOL" "nan_free (variable n)"
  by (simp_all add: variable_def)

lemma factory_simps [simp]:
  "type (add l r) = ADD" "type (multiply l r) = MULTIPLY" "type (subtract l r) = SUBTRACT"
  "clone (add l r) = add (clone l) (clone r)"
  "clone (multiply l r) = multiply (clone l) (clone r)"
  "clone (subtract l r) = subtract (clone l) (clone r)"
  "\<not> check_zero (add l r)" "\<not> check_zero (multiply l r)"
  "\<not> check_one (add l r)" "\<not> check_one (multiply l r)"
  by (simp_all add: add_def multiply_def subtract_def check_zero_def check_one_def
      get_scalar_value_def)

lemma simplify_pass_product:
  fixes P xn yn
  defines "x \<equiv> variable xn" and "y \<equiv> variable yn"
  shows "simplify_pass P (initialize_default_rules P) (multiply x y) = (multiply x y, False)"
  by (simp add: simplify_pass_unfold default_rules_lookup category_step_pair
      x_def y_def variable_def symbol_def multiply_def
      identity_addition_def identity_multiplication_def zero_multiplication_def
      combine_constants_def distribute_multiplication_def factor_common_terms_def
      distribute_over_subtraction_def antisymmetry_def zero_commutator_def
      expand_commutator_def check_one_def check_zero_def
      get_scalar_value_def is_scalar_def)

lemma simplify_product:
  "simplify P (initialize_default_rules P)
     (multiply (variable xn) (variable yn))
   = multiply (variable xn) (variable yn)"
proof -
  let ?m = "multiply (variable xn) (variable yn)"
  have c: "clone ?m = ?m" by simp
  have "simplify_loop P (initialize_default_rules P) ?m True 0 = (?m, Suc 0)"
    by (rule simplify_loop_stop [OF simplify_pass_product]) (simp add: max_iterations_def)
  then show ?thesis by (simp add: simplify_def c del: simplify_loop.simps)
qed


lemma simplify_loop_bound:
  "iterations \<le> max_iterations \<Longrightarrow>
   snd (simplify_loop P rules result changed iterations) \<le> max_iterations"
proof (induction P rules result changed iterations rule: simplify_loop.induct)
  case (1 P rules result changed iterations)
  show ?case
  proof (cases "changed \<and> iterations < max_iterations")
    case True
    obtain result' changed' where pass: "simplify_pass P rules result = (result', changed')"
      by (cases "simplify_pass P rules result")
    from True have "iterations + 1 \<le> max_iterations" by simp
    with "1.IH" [OF True pass [symmetric] refl] have
      "snd (simplify_loop P rules result' changed' (iterations + 1)) \<le> max_iterations"
      by simp
    with True pass show ?thesis
      by (subst simplify_loop.simps) simp
  next
    case False
    with "1.prems" show ?thesis
      by (subst simplify_loop.simps) auto
  qed
qed

lemma apply_rules_Some_iff:
  "apply_rules e rs = Some v \<longleftrightarrow>
     (\<exists>i<length rs. (rs ! i) e = Some v \<and> (\<forall>j<i. (rs ! j) e = None))"
proof (induction rs)
  case Nil
  then show ?case by simp
next
  case (Cons r rs)
  show ?case
  proof (cases "r e")
    case None
    have "(\<exists>i<length (r # rs). ((r # rs) ! i) e = Some v \<and> (\<forall>j<i. ((r # rs) ! j) e = None))
        \<longleftrightarrow> (\<exists>i<length rs. (rs ! i) e = Some v \<and> (\<forall>j<i. (rs ! j) e = None))"
      (is "?L \<longleftrightarrow> ?R")
    proof
      assume ?L
      then obtain i where i: "i < length (r # rs)" "((r # rs) ! i) e = Some v"
        "\<forall>j<i. ((r # rs) ! j) e = None" by blast
      with None obtain k where k: "i = Suc k" by (cases i) auto
      from i k have "k < length rs" "(rs ! k) e = Some v" by simp_all
      moreover have "\<forall>j<k. (rs ! j) e = None"
      proof (intro allI impI)
        fix j assume "j < k"
        then have "Suc j < i" using k by simp
        with i(3) have "((r # rs) ! Suc j) e = None" by blast
        then show "(rs ! j) e = None" by simp
      qed
      ultimately show ?R by blast
    next
      assume ?R
      then obtain k where k: "k < length rs" "(rs ! k) e = Some v" "\<forall>j<k. (rs ! j) e = None"
        by blast
      have "\<forall>j<Suc k. ((r # rs) ! j) e = None"
      proof (intro allI impI)
        fix j assume "j < Suc k"
        then show "((r # rs) ! j) e = None"
          using None k(3) by (cases j) auto
      qed
      with k show ?L by (intro exI [of _ "Suc k"]) simp
    qed
    with None Cons.IH show ?thesis by simp
  next
    case (Some w)
    have "(\<exists>i<length (r # rs). ((r # rs) ! i) e = Some v \<and> (\<forall>j<i. ((r # rs) ! j) e = None))
        \<longleftrightarrow> w = v" (is "?L \<longleftrightarrow> _")
    proof
      assume ?L
      then obtain i where i: "i < length (r # rs)" "((r # rs) ! i) e = Some v"
        "\<forall>j<i. ((r # rs) ! j) e = None" by blast
      have "i = 0"
      proof (rule ccontr)
        assume "i \<noteq> 0"
        then have "0 < i" by simp
        with i(3) have "((r # rs) ! 0) e = None" by blast
        with Some show False by simp
      qed
      with i(2) Some show "w = v" by simp
    next
      assume "w = v"
      with Some show ?L by (intro exI [of _ 0]) simp
    qed
    with Some show ?thesis by simp
  qed
qed

lemma apply_rules_None_iff: "apply_rules e rs = None \<longleftrightarrow> (\<forall>r\<in>set rs. r e = None)"
  by (induction rs) (auto split: option.splits)

lemma category_step_changed:
  "snd (category_step P rules (e, ch) rt) \<longleftrightarrow>
     ch \<or> to_string P (fst (category_step P rules (e, ch) rt)) \<noteq> to_string P e"
  by (simp add: category_step_pair split: option.splits)

lemma foldl_category_step_changed:
  "snd (foldl (category_step P rules) (e, ch) rts) \<longleftrightarrow>
     ch \<or> (\<exists>k<length rts.
              to_string P (fst (foldl (category_step P rules) (e, ch) (take (Suc k) rts)))
              \<noteq> to_string P (fst (foldl (category_step P rules) (e, ch) (take k rts))))"
proof (induction rts rule: rev_induct)
  case Nil
  then show ?case by simp
next
  case (snoc rt rts)
  let ?st = "\<lambda>l. foldl (category_step P rules) (e, ch) l"
  obtain e' ch' where st: "?st rts = (e', ch')" by (cases "?st rts")
  have last: "snd (?st (rts @ [rt])) \<longleftrightarrow>
      ch' \<or> to_string P (fst (?st (rts @ [rt]))) \<noteq> to_string P e'"
    using category_step_changed [of P rules e' ch' rt] by (simp add: st)
  define Q where "Q k \<longleftrightarrow> to_string P (fst (?st (take (Suc k) (rts @ [rt]))))
      \<noteq> to_string P (fst (?st (take k (rts @ [rt]))))" for k
  define Q' where "Q' k \<longleftrightarrow> to_string P (fst (?st (take (Suc k) rts)))
      \<noteq> to_string P (fst (?st (take k rts)))" for k
  have split: "(\<exists>k<length (rts @ [rt]). Q k) \<longleftrightarrow> (\<exists>k<length rts. Q k) \<or> Q (length rts)"
    by (auto simp: less_Suc_eq)
  have same: "Q k \<longleftrightarrow> Q' k" if "k < length rts" for k
    using that by (simp add: Q_def Q'_def)
  have final: "Q (length rts) \<longleftrightarrow>
      to_string P (fst (?st (rts @ [rt]))) \<noteq> to_string P e'"
    by (simp add: Q_def st)
  have "(\<exists>k<length (rts @ [rt]). Q k) \<longleftrightarrow>
      (\<exists>k<length rts. Q' k) \<or> to_string P (fst (?st (rts @ [rt]))) \<noteq> to_string P e'"
    using split same final by auto
  then have "(\<exists>k<length (rts @ [rt]).
           to_string P (fst (?st (take (Suc k) (rts @ [rt]))))
           \<noteq> to_string P (fst (?st (take k (rts @ [rt])))))
      \<longleftrightarrow> (\<exists>k<length rts. to_string P (fst (?st (take (Suc k) rts)))
                \<noteq> to_string P (fst (?st (take k rts))))
          \<or> to_string P (fst (?st (rts @ [rt]))) \<noteq> to_string P e'"
    unfolding Q_def Q'_def .
  with last snoc.IH st show ?case by auto
qed

lemma nan_free_factories [simp]:
  "nan_free (add l r) = (nan_free l \<and> nan_free r)"
  "nan_free (subtract l r) = (nan_free l \<and> nan_free r)"
  "nan_free (multiply l r) = (nan_free l \<and> nan_free r)"
  "nan_free (commutator l r) = (nan_free l \<and> nan_free r)"
  "nan_free zero" "nan_free one"
  by (simp_all add: add_def subtract_def multiply_def commutator_def zero_def one_def symbol_def)

lemma hash_respects_eq_sample: "hash_respects_eq sample_platform"
  by (auto simp: hash_respects_eq_def sample_platform_def d_eq_def)

subsection \<open>Renderings across one pass of the default rules\<close>

text \<open>
  When an algebraic rule changes the tree, the new tree is a copy of one operand of an
  Add or a Multiply, so the old rendering is the new operand string with text before or
  after it. No result of a distributive or commutator rule on the new tree has such a
  rendering; hence a second change in the same pass never restores the rendering the
  pass started from.
\<close>

lemma shift_prefix: "c \<noteq> d \<Longrightarrow> A @ c # Y \<noteq> d # A @ Y'"
proof (induction A arbitrary: Y')
  case Nil
  then show ?case by simp
next
  case (Cons x A)
  show ?case
  proof
    assume "(x # A) @ c # Y = d # (x # A) @ Y'"
    then have "x = d" and "A @ c # Y = x # A @ Y'" by simp_all
    then have "A @ c # Y = d # A @ ([] @ Y')" by simp
    with Cons.IH [OF Cons.prems, of Y'] show False by simp
  qed
qed

lemma shift_suffix: "c \<noteq> d \<Longrightarrow> Y @ c # B \<noteq> Y' @ B @ [d]"
proof
  assume cd: "c \<noteq> d" and eq: "Y @ c # B = Y' @ B @ [d]"
  from eq have "rev (Y @ c # B) = rev (Y' @ B @ [d])" by simp
  then have "rev B @ c # rev Y = d # rev B @ rev Y'" by simp
  with shift_prefix [OF cd] show False by blast
qed

lemma to_string_binary:
  "to_string P (BinaryOpExpression t l r cs) =
     operand_string P l @ '' '' @ operator_symbol t @ '' '' @ operand_string P r"
  by (simp add: operand_string_def)

lemma operand_string_clone [simp]: "operand_string P (clone c) = operand_string P c"
  by (simp add: operand_string_def)

lemma binary_cases:
  assumes "is_binary e" "type e = ADD \<or> type e = MULTIPLY \<or> type e = SUBTRACT"
  obtains t l r where "e = BinaryOpExpression t l r []"
  using assms by (cases e) auto

lemma type_binop_cases:
  assumes "type e = ADD \<or> type e = MULTIPLY \<or> type e = SUBTRACT"
  obtains l r cs where "e = BinaryOpExpression (type e) l r cs"
  using assms by (cases e) auto


lemma type_constant_expr [simp]: "type (constant_expr P v) = SYMBOL"
  by (simp add: constant_expr_def)

lemma algebraic_framed:
  assumes alg: "apply_rules e
      [identity_addition, identity_multiplication, zero_multiplication, combine_constants P]
      = Some e1"
    and ty: "type e1 \<noteq> SYMBOL"
  shows "(\<exists>X. to_string P e = operand_string P e1 @ CHR '' '' # X)
       \<or> (\<exists>X. to_string P e = X @ CHR '' '' # operand_string P e1)"
proof -
  consider (add) "type e = ADD" "is_binary e"
    | (mul) "type e = MULTIPLY" "is_binary e"
    | (other) "\<not> ((type e = ADD \<or> type e = MULTIPLY) \<and> is_binary e)"
    by blast
  then show ?thesis
  proof cases
    case add
    then obtain t l r where e: "e = BinaryOpExpression t l r []"
      by (auto elim: binary_cases)
    with add have t: "t = ADD" by simp
    from alg ty e t consider "e1 = clone r" | "e1 = clone l"
      by (auto simp: identity_addition_def identity_multiplication_def zero_multiplication_def
          combine_constants_def split: if_splits option.splits)
    then show ?thesis
    proof cases
      case 1
      have "to_string P e = (operand_string P l @ '' +'') @ CHR '' '' # operand_string P e1"
        by (simp add: e t 1 to_string_binary del: to_string.simps)
      then show ?thesis by blast
    next
      case 2
      have "to_string P e = operand_string P e1 @ CHR '' '' # (''+ '' @ operand_string P r)"
        by (simp add: e t 2 to_string_binary del: to_string.simps)
      then show ?thesis by blast
    qed
  next
    case mul
    then obtain t l r where e: "e = BinaryOpExpression t l r []"
      by (auto elim: binary_cases)
    with mul have t: "t = MULTIPLY" by simp
    from alg ty e t consider "e1 = clone r" | "e1 = clone l"
      by (auto simp: identity_addition_def identity_multiplication_def zero_multiplication_def
          combine_constants_def split: if_splits option.splits)
    then show ?thesis
    proof cases
      case 1
      have "to_string P e = (operand_string P l @ '' *'') @ CHR '' '' # operand_string P e1"
        by (simp add: e t 1 to_string_binary del: to_string.simps)
      then show ?thesis by blast
    next
      case 2
      have "to_string P e = operand_string P e1 @ CHR '' '' # (''* '' @ operand_string P r)"
        by (simp add: e t 2 to_string_binary del: to_string.simps)
      then show ?thesis by blast
    qed
  next
    case other
    with alg show ?thesis
      by (auto simp: identity_addition_def identity_multiplication_def zero_multiplication_def
          combine_constants_def split: if_splits)
  qed
qed


lemma neq_by_prefix: "s = A @ c # Y \<Longrightarrow> t = d # A @ Y' \<Longrightarrow> c \<noteq> d \<Longrightarrow> s \<noteq> t"
  using shift_prefix [of c d A Y Y'] by simp

lemma neq_by_suffix: "s = Y @ c # B \<Longrightarrow> t = Y' @ B @ [d] \<Longrightarrow> c \<noteq> d \<Longrightarrow> s \<noteq> t"
  using shift_suffix [of c d Y B Y'] by simp

lemma neq_by_length: "length s < length t \<Longrightarrow> s \<noteq> t"
  by auto

lemma not_nan_one [simp]: "\<not> d_isnan d_one"
  by (simp add: d_isnan_def d_one_def d_abs_bits_def)

lemma to_string_product [simp]:
  "to_string P (multiply l r) = operand_string P l @ '' * '' @ operand_string P r"
  by (simp add: multiply_def to_string_binary del: to_string.simps)

lemma to_string_add [simp]:
  "to_string P (add l r) = operand_string P l @ '' + '' @ operand_string P r"
  by (simp add: add_def to_string_binary del: to_string.simps)

lemma to_string_subtract [simp]:
  "to_string P (subtract l r) = operand_string P l @ '' - '' @ operand_string P r"
  by (simp add: subtract_def to_string_binary del: to_string.simps)

lemma operand_string_factories [simp]:
  "operand_string P (multiply l r) = to_string P (multiply l r)"
  "operand_string P (add l r) = ''('' @ to_string P (add l r) @ '')''"
  "operand_string P (subtract l r) = ''('' @ to_string P (subtract l r) @ '')''"
  unfolding operand_string_def by simp_all

lemma to_string_sum4:
  "to_string P (SumExpression [m1, m2, m3, m4] [d_one, d_one, d_one, d_one]) =
     to_string P m1 @ '' + '' @ to_string P m2 @ '' + '' @ to_string P m3 @ '' + ''
       @ to_string P m4"
  by (simp add: coefficient_def)

lemma dm_result:
  assumes "distribute_multiplication e1 = Some e2"
  obtains (both) a b cs1 c d cs2 where
      "e1 = multiply (BinaryOpExpression ADD a b cs1) (BinaryOpExpression ADD c d cs2)"
      "e2 = SumExpression
         [multiply (clone a) (clone c), multiply (clone a) (clone d),
          multiply (clone b) (clone c), multiply (clone b) (clone d)]
         [d_one, d_one, d_one, d_one]"
    | (left) a b cs1 R where
      "e1 = multiply (BinaryOpExpression ADD a b cs1) R" "type R \<noteq> ADD"
      "e2 = add (multiply (clone a) (clone R)) (multiply (clone b) (clone R))"
    | (right) L b c cs2 where
      "e1 = multiply L (BinaryOpExpression ADD b c cs2)" "type L \<noteq> ADD"
      "e2 = add (multiply (clone L) (clone b)) (multiply (clone L) (clone c))"
proof -
  from assms have "type e1 = MULTIPLY" "is_binary e1"
    by (auto simp: distribute_multiplication_def split: if_splits)
  then obtain t L R where "e1 = BinaryOpExpression t L R []"
    by (auto elim: binary_cases)
  with \<open>type e1 = MULTIPLY\<close> have e1: "e1 = multiply L R"
    by (simp add: multiply_def)
  show thesis
  proof (cases "type L = ADD")
    case True
    then obtain a b cs1 where L: "L = BinaryOpExpression ADD a b cs1"
      by (auto simp: type_eq_iff)
    show thesis
    proof (cases "type R = ADD")
      case True
      then obtain c d cs2 where R: "R = BinaryOpExpression ADD c d cs2"
        by (auto simp: type_eq_iff)
      from assms have "e2 = SumExpression
         [multiply (clone a) (clone c), multiply (clone a) (clone d),
          multiply (clone b) (clone c), multiply (clone b) (clone d)]
         [d_one, d_one, d_one, d_one]"
        by (simp add: e1 L R distribute_multiplication_def multiply_def add_term_def)
      with e1 L R show thesis by (intro both) simp_all
    next
      case False
      with assms have "e2 = add (multiply (clone a) (clone R)) (multiply (clone b) (clone R))"
        by (auto simp: e1 L distribute_multiplication_def multiply_def Let_def split: if_splits)
      with e1 L False show thesis by (intro left) simp_all
    qed
  next
    case False
    with assms have tR: "type R = ADD"
      by (auto simp: e1 distribute_multiplication_def multiply_def Let_def split: if_splits)
    then obtain b c cs2 where R: "R = BinaryOpExpression ADD b c cs2"
      by (auto simp: type_eq_iff)
    from assms False
    have "e2 = add (multiply (clone L) (clone b)) (multiply (clone L) (clone c))"
      by (auto simp: e1 R distribute_multiplication_def multiply_def Let_def split: if_splits)
    with e1 R False show thesis by (intro right) simp_all
  qed
qed


lemma operand_string_BinaryOp_ADD [simp]:
  "operand_string P (BinaryOpExpression ADD a b cs) =
     ''('' @ operand_string P a @ '' + '' @ operand_string P b @ '')''"
  "operand_string P (BinaryOpExpression SUBTRACT a b cs) =
     ''('' @ operand_string P a @ '' - '' @ operand_string P b @ '')''"
  by (simp_all add: operand_string_def [of P "BinaryOpExpression _ _ _ _"] to_string_binary
      del: to_string.simps)

lemma dm_not_framed:
  assumes "distribute_multiplication e1 = Some e2"
  shows "to_string P e2 \<noteq> operand_string P e1 @ X"
    and "to_string P e2 \<noteq> X @ CHR '' '' # operand_string P e1"
    and "type e2 \<noteq> COMMUTATOR" and "type e1 \<noteq> SYMBOL"
proof -
  have "to_string P e2 \<noteq> operand_string P e1 @ X
      \<and> to_string P e2 \<noteq> X @ CHR '' '' # operand_string P e1
      \<and> type e2 \<noteq> COMMUTATOR \<and> type e1 \<noteq> SYMBOL"
    using assms
  proof (cases rule: dm_result)
    case (both a b cs1 c d cs2)
    define A B C D where "A = operand_string P a" and "B = operand_string P b"
      and "C = operand_string P c" and "D = operand_string P d"
    have T: "to_string P e2 =
        A @ '' * '' @ C @ '' + '' @ A @ '' * '' @ D @ '' + '' @ B @ '' * '' @ C @ '' + ''
          @ B @ '' * '' @ D"
      by (simp add: both to_string_sum4 A_def B_def C_def D_def del: to_string.simps)
    have W: "operand_string P e1 =
        ''('' @ A @ '' + '' @ B @ '') * ('' @ C @ '' + '' @ D @ '')''"
      by (simp add: both A_def B_def C_def D_def del: to_string.simps)
    have 1: "to_string P e2 \<noteq> operand_string P e1 @ X"
      by (rule neq_by_prefix [where A = A and c = "CHR '' ''" and d = "CHR ''(''"])
        (simp_all add: T W)
    have 2: "to_string P e2 \<noteq> X @ CHR '' '' # operand_string P e1"
      by (rule neq_by_suffix [where B = D and c = "CHR '' ''" and d = "CHR '')''"
            and Y = "A @ '' * '' @ C @ '' + '' @ A @ '' * '' @ D @ '' + '' @ B @ '' * '' @ C
              @ '' + '' @ B @ '' *''"
            and Y' = "X @ '' ('' @ A @ '' + '' @ B @ '') * ('' @ C @ '' + ''"])
        (simp_all add: T W)
    from 1 2 both show ?thesis by (simp add: multiply_def)
  next
    case (left a b cs1 R)
    define A B C where "A = operand_string P a" and "B = operand_string P b"
      and "C = operand_string P R"
    have T: "to_string P e2 = A @ '' * '' @ C @ '' + '' @ B @ '' * '' @ C"
      by (simp add: left A_def B_def C_def del: to_string.simps)
    have W: "operand_string P e1 = ''('' @ A @ '' + '' @ B @ '') * '' @ C"
      by (simp add: left A_def B_def C_def del: to_string.simps)
    have 1: "to_string P e2 \<noteq> operand_string P e1 @ X"
      by (rule neq_by_prefix [where A = A and c = "CHR '' ''" and d = "CHR ''(''"])
        (simp_all add: T W)
    have "A @ '' * '' @ C @ '' + '' @ B \<noteq> X @ '' ('' @ A @ '' + '' @ B @ '')''"
      by (rule neq_by_suffix [where B = B and c = "CHR '' ''" and d = "CHR '')''"
            and Y = "A @ '' * '' @ C @ '' +''" and Y' = "X @ '' ('' @ A @ '' + ''"])
        simp_all
    then have 2: "to_string P e2 \<noteq> X @ CHR '' '' # operand_string P e1"
      by (simp add: T W)
    from 1 2 left show ?thesis by (simp add: multiply_def add_def)
  next
    case (right L b c cs2)
    define A B C where "A = operand_string P L" and "B = operand_string P b"
      and "C = operand_string P c"
    have T: "to_string P e2 = A @ '' * '' @ B @ '' + '' @ A @ '' * '' @ C"
      by (simp add: right A_def B_def C_def del: to_string.simps)
    have W: "operand_string P e1 = A @ '' * ('' @ B @ '' + '' @ C @ '')''"
      by (simp add: right A_def B_def C_def del: to_string.simps)
    have "B @ '' + '' @ A @ '' * '' @ C \<noteq> ''('' @ B @ '' + '' @ C @ '')'' @ X"
      by (rule neq_by_prefix [where A = B and c = "CHR '' ''" and d = "CHR ''(''"])
        simp_all
    then have 1: "to_string P e2 \<noteq> operand_string P e1 @ X"
      by (simp add: T W)
    have 2: "to_string P e2 \<noteq> X @ CHR '' '' # operand_string P e1"
      by (rule neq_by_suffix [where B = C and c = "CHR '' ''" and d = "CHR '')''"
            and Y = "A @ '' * '' @ B @ '' + '' @ A @ '' *''"
            and Y' = "X @ '' '' @ A @ '' * ('' @ B @ '' + ''"])
        (simp_all add: T W)
    from 1 2 right show ?thesis by (simp add: multiply_def add_def)
  qed
  then show "to_string P e2 \<noteq> operand_string P e1 @ X"
    and "to_string P e2 \<noteq> X @ CHR '' '' # operand_string P e1"
    and "type e2 \<noteq> COMMUTATOR" and "type e1 \<noteq> SYMBOL"
    by simp_all
qed


lemma fc_not_framed:
  assumes "factor_common_terms e1 = Some e2"
  shows "to_string P e2 \<noteq> operand_string P e1 @ X"
    and "to_string P e2 \<noteq> X @ CHR '' '' # operand_string P e1"
    and "type e2 \<noteq> COMMUTATOR" and "type e1 \<noteq> SYMBOL"
proof -
  from assms have ty: "type e1 = ADD" "is_binary e1"
    by (auto simp: factor_common_terms_def split: if_splits)
  then obtain t L R where "e1 = BinaryOpExpression t L R []"
    by (auto elim: binary_cases)
  with ty have e1: "e1 = add L R"
    by (simp add: add_def)
  from assms have tyLR: "type L = MULTIPLY" "type R = MULTIPLY" "is_binary L" "is_binary R"
    by (auto simp: e1 add_def factor_common_terms_def Let_def split: if_splits)
  then obtain tl l0 l1 tr r0 r1 where
    "L = BinaryOpExpression tl l0 l1 []" "R = BinaryOpExpression tr r0 r1 []"
    by (auto elim!: binary_cases)
  with tyLR have L: "L = multiply l0 l1" and R: "R = multiply r0 r1"
    by (simp_all add: multiply_def)
  from assms consider
      (one) "e2 = multiply (add (clone l0) (clone r0)) (clone l1)"
    | (two) "e2 = multiply (clone l0) (add (clone l1) (clone r1))"
    by (auto simp: e1 L R add_def multiply_def factor_common_terms_def Let_def
        split: if_splits)
  then have "length (to_string P e2) < length (operand_string P e1)
      \<and> type e2 \<noteq> COMMUTATOR"
    by cases (simp_all add: e1 L R del: to_string.simps)
  then show "to_string P e2 \<noteq> operand_string P e1 @ X"
    and "to_string P e2 \<noteq> X @ CHR '' '' # operand_string P e1"
    and "type e2 \<noteq> COMMUTATOR" and "type e1 \<noteq> SYMBOL"
    using ty by (auto intro!: neq_by_length)
qed

lemma ds_not_framed:
  assumes "distribute_over_subtraction e1 = Some e2"
  shows "to_string P e2 \<noteq> operand_string P e1 @ X"
    and "to_string P e2 \<noteq> X @ CHR '' '' # operand_string P e1"
    and "type e2 \<noteq> COMMUTATOR" and "type e1 \<noteq> SYMBOL"
proof -
  from assms have ty: "type e1 = MULTIPLY" "is_binary e1"
    by (auto simp: distribute_over_subtraction_def split: if_splits)
  then obtain t L R where "e1 = BinaryOpExpression t L R []"
    by (auto elim: binary_cases)
  with ty have e1: "e1 = multiply L R"
    by (simp add: multiply_def)
  have "to_string P e2 \<noteq> operand_string P e1 @ X
      \<and> to_string P e2 \<noteq> X @ CHR '' '' # operand_string P e1
      \<and> type e2 \<noteq> COMMUTATOR"
  proof (cases "type R = SUBTRACT \<and> is_binary R")
    case True
    then obtain tr b c where "R = BinaryOpExpression tr b c []"
      by (auto elim: binary_cases)
    with True have R: "R = BinaryOpExpression SUBTRACT b c []" by simp
    from assms have e2: "e2 = subtract (multiply (clone L) (clone b)) (multiply (clone L) (clone c))"
      by (simp add: e1 R multiply_def distribute_over_subtraction_def)
    define A B C where "A = operand_string P L" and "B = operand_string P b"
      and "C = operand_string P c"
    have T: "to_string P e2 = A @ '' * '' @ B @ '' - '' @ A @ '' * '' @ C"
      by (simp add: e2 A_def B_def C_def del: to_string.simps)
    have W: "operand_string P e1 = A @ '' * ('' @ B @ '' - '' @ C @ '')''"
      by (simp add: e1 R A_def B_def C_def del: to_string.simps)
    have "B @ '' - '' @ A @ '' * '' @ C \<noteq> ''('' @ B @ '' - '' @ C @ '')'' @ X"
      by (rule neq_by_prefix [where A = B and c = "CHR '' ''" and d = "CHR ''(''"])
        simp_all
    then have 1: "to_string P e2 \<noteq> operand_string P e1 @ X"
      by (simp add: T W)
    have 2: "to_string P e2 \<noteq> X @ CHR '' '' # operand_string P e1"
      by (rule neq_by_suffix [where B = C and c = "CHR '' ''" and d = "CHR '')''"
            and Y = "A @ '' * '' @ B @ '' - '' @ A @ '' *''"
            and Y' = "X @ '' '' @ A @ '' * ('' @ B @ '' - ''"])
        (simp_all add: T W)
    from 1 2 e2 show ?thesis by (simp add: subtract_def)
  next
    case False
    with assms have tL: "type L = SUBTRACT" "is_binary L"
      by (auto simp: e1 multiply_def distribute_over_subtraction_def Let_def split: if_splits)
    then obtain tl a b where "L = BinaryOpExpression tl a b []"
      by (auto elim: binary_cases)
    with tL have L: "L = BinaryOpExpression SUBTRACT a b []" by simp
    from assms False
    have e2: "e2 = subtract (multiply (clone a) (clone R)) (multiply (clone b) (clone R))"
      by (auto simp: e1 L multiply_def distribute_over_subtraction_def Let_def split: if_splits)
    define A B C where "A = operand_string P a" and "B = operand_string P b"
      and "C = operand_string P R"
    have T: "to_string P e2 = A @ '' * '' @ C @ '' - '' @ B @ '' * '' @ C"
      by (simp add: e2 A_def B_def C_def del: to_string.simps)
    have W: "operand_string P e1 = ''('' @ A @ '' - '' @ B @ '') * '' @ C"
      by (simp add: e1 L A_def B_def C_def del: to_string.simps)
    have 1: "to_string P e2 \<noteq> operand_string P e1 @ X"
      by (rule neq_by_prefix [where A = A and c = "CHR '' ''" and d = "CHR ''(''"])
        (simp_all add: T W)
    have "A @ '' * '' @ C @ '' - '' @ B \<noteq> X @ '' ('' @ A @ '' - '' @ B @ '')''"
      by (rule neq_by_suffix [where B = B and c = "CHR '' ''" and d = "CHR '')''"
            and Y = "A @ '' * '' @ C @ '' -''" and Y' = "X @ '' ('' @ A @ '' - ''"])
        simp_all
    then have 2: "to_string P e2 \<noteq> X @ CHR '' '' # operand_string P e1"
      by (simp add: T W)
    from 1 2 e2 show ?thesis by (simp add: subtract_def)
  qed
  with ty show "to_string P e2 \<noteq> operand_string P e1 @ X"
    and "to_string P e2 \<noteq> X @ CHR '' '' # operand_string P e1"
    and "type e2 \<noteq> COMMUTATOR" and "type e1 \<noteq> SYMBOL"
    by simp_all
qed

lemma distributive_not_framed:
  assumes "apply_rules e1
      [distribute_multiplication, factor_common_terms, distribute_over_subtraction] = Some e2"
  shows "to_string P e2 \<noteq> operand_string P e1 @ X"
    and "to_string P e2 \<noteq> X @ CHR '' '' # operand_string P e1"
    and "type e2 \<noteq> COMMUTATOR" and "type e1 \<noteq> SYMBOL"
proof -
  from assms consider "distribute_multiplication e1 = Some e2"
    | "factor_common_terms e1 = Some e2" | "distribute_over_subtraction e1 = Some e2"
    by (auto split: option.splits)
  then have "to_string P e2 \<noteq> operand_string P e1 @ X
      \<and> to_string P e2 \<noteq> X @ CHR '' '' # operand_string P e1
      \<and> type e2 \<noteq> COMMUTATOR \<and> type e1 \<noteq> SYMBOL"
    by cases (simp_all add: dm_not_framed fc_not_framed ds_not_framed)
  then show "to_string P e2 \<noteq> operand_string P e1 @ X"
    and "to_string P e2 \<noteq> X @ CHR '' '' # operand_string P e1"
    and "type e2 \<noteq> COMMUTATOR" and "type e1 \<noteq> SYMBOL"
    by simp_all
qed


lemma commutator_root_cases:
  assumes "type e1 = COMMUTATOR" "is_binary e1"
  obtains (node) a b where "e1 = CommutatorExpression a b []"
    | (binop) a b where "e1 = BinaryOpExpression COMMUTATOR a b []"
  using assms by (cases e1) auto

lemma expand_not_framed_binop:
  "A @ '' * '' @ B @ '' - '' @ B @ '' * '' @ A \<noteq> X @ '' '' @ A @ '' ? '' @ B"
proof
  assume "A @ '' * '' @ B @ '' - '' @ B @ '' * '' @ A = X @ '' '' @ A @ '' ? '' @ B"
  then have "(A @ '' * '' @ B @ '' -'') @ ('' '' @ B @ '' * '' @ A)
      = X @ ('' '' @ A @ '' ? '' @ B)"
    by simp
  then have "'' '' @ B @ '' * '' @ A = '' '' @ A @ '' ? '' @ B"
    by (subst (asm) append_eq_append_conv) simp_all
  then have "count_list ('' '' @ B @ '' * '' @ A) CHR ''?''
      = count_list ('' '' @ A @ '' ? '' @ B) CHR ''?''"
    by (rule arg_cong)
  then show False by simp
qed

lemma commutator_not_framed:
  assumes zero: "prints_zero P"
    and comm: "apply_rules e1 [antisymmetry, zero_commutator, expand_commutator] = Some e3"
  shows "to_string P e3 \<noteq> operand_string P e1 @ X"
    and "to_string P e3 \<noteq> X @ CHR '' '' # operand_string P e1"
    and "type e1 \<noteq> SYMBOL"
proof -
  from comm have ty: "type e1 = COMMUTATOR" "is_binary e1"
    by (auto simp: antisymmetry_def zero_commutator_def expand_commutator_def
        split: if_splits option.splits)
  then obtain a b where ch: "child e1 0 = a" "child e1 1 = b"
    and W: "operand_string P e1 = ''['' @ to_string P a @ '', '' @ to_string P b @ '']''
        \<or> operand_string P e1 = operand_string P a @ '' ? '' @ operand_string P b"
    by (cases rule: commutator_root_cases)
      (auto simp: operand_string_def [of P "CommutatorExpression _ _ _"]
        operand_string_def [of P "BinaryOpExpression _ _ _ _"] to_string_binary
        simp del: to_string.simps(2))
  define sa sb where "sa = to_string P a" and "sb = to_string P b"
  define A B where "A = operand_string P a" and "B = operand_string P b"
  from comm ty ch consider (zero) "e3 = zero"
    | (expand) "e3 = subtract (multiply (clone a) (clone b)) (multiply (clone b) (clone a))"
    by (auto simp: antisymmetry_def zero_commutator_def expand_commutator_def Let_def
        split: if_splits)
  then have "to_string P e3 \<noteq> operand_string P e1 @ X
      \<and> to_string P e3 \<noteq> X @ CHR '' '' # operand_string P e1"
  proof cases
    case zero
    have T: "to_string P e3 = ''0=0''"
      using assms(1) by (simp add: zero to_string_zero prints_zero_def)
    have "CHR '' '' \<in> set (operand_string P e1)"
      using W by auto
    then have "CHR '' '' \<in> set (operand_string P e1 @ X)"
      and "CHR '' '' \<in> set (X @ CHR '' '' # operand_string P e1)"
      by simp_all
    moreover have "CHR '' '' \<notin> set (to_string P e3)"
      by (simp add: T)
    ultimately show ?thesis by metis
  next
    case expand
    have T: "to_string P e3 = A @ '' * '' @ B @ '' - '' @ B @ '' * '' @ A"
      by (simp add: expand A_def B_def del: to_string.simps)
    have A: "A = sa \<or> A = ''('' @ sa @ '')''" and B: "B = sb \<or> B = ''('' @ sb @ '')''"
      by (simp_all add: A_def B_def sa_def sb_def operand_string_def)
    from W show ?thesis
    proof
      assume W: "operand_string P e1 = operand_string P a @ '' ? '' @ operand_string P b"
      have "to_string P e3 \<noteq> operand_string P e1 @ X"
        by (simp add: T W A_def B_def)
      moreover have "to_string P e3 \<noteq> X @ CHR '' '' # operand_string P e1"
        using expand_not_framed_binop [of A B X] by (simp add: T W A_def B_def)
      ultimately show ?thesis by simp
    next
      assume "operand_string P e1 = ''['' @ to_string P a @ '', '' @ to_string P b @ '']''"
      then have W: "operand_string P e1 = ''['' @ sa @ '', '' @ sb @ '']''"
        by (simp add: sa_def sb_def)
      have 1: "to_string P e3 \<noteq> operand_string P e1 @ X"
      proof (cases "A = sa")
        case True
        show ?thesis
          by (rule neq_by_prefix [where A = sa and c = "CHR '' ''" and d = "CHR ''[''"])
            (simp_all add: T W True)
      next
        case False
        with A have "A = ''('' @ sa @ '')''" by simp
        then show ?thesis by (simp add: T W)
      qed
      have 2: "to_string P e3 \<noteq> X @ CHR '' '' # operand_string P e1"
      proof (cases "A = sa")
        case False
        with A have A': "A = ''('' @ sa @ '')''" by simp
        show ?thesis
          by (rule neq_by_suffix [where B = "[]" and c = "CHR '')''" and d = "CHR '']''"
                and Y = "A @ '' * '' @ B @ '' - '' @ B @ '' * ('' @ sa"
                and Y' = "X @ '' ['' @ sa @ '', '' @ sb"])
            (simp_all add: T W A')
      next
        case True
        show ?thesis
        proof (cases "B = sb")
          case Bs: True
          have "(sa @ '' * '' @ sb @ '' -'') @ ('' '' @ sb @ '' * '' @ sa)
              \<noteq> (X @ '' '') @ (''['' @ sa @ '', '' @ sb @ '']'')"
            by (subst append_eq_append_conv) simp_all
          then show ?thesis by (simp add: T W True Bs)
        next
          case False
          with B have Bp: "B = ''('' @ sb @ '')''" by simp
          have "(sa @ '' * ('' @ sb @ '') - ('') @ (sb @ '') * '' @ sa)
              \<noteq> (X @ '' '') @ (''['' @ sa @ '', '' @ sb @ '']'')"
            by (subst append_eq_append_conv) simp_all
          then show ?thesis by (simp add: T W True Bp)
        qed
      qed
      from 1 2 show ?thesis by simp
    qed
  qed
  with ty show "to_string P e3 \<noteq> operand_string P e1 @ X"
    and "to_string P e3 \<noteq> X @ CHR '' '' # operand_string P e1"
    and "type e1 \<noteq> SYMBOL"
    by simp_all
qed


lemma category_step_cases:
  assumes "category_step P rules (e, c) rt = (e', c')"
  shows "(e' = e \<and> c' = c)
       \<or> (c' \<and> (\<exists>rs. rules rt = Some rs \<and> apply_rules e rs = Some e')
            \<and> to_string P e' \<noteq> to_string P e)"
  using assms by (auto simp: category_step_pair split: option.splits if_splits)

lemma default_pass_changed_iff:
  assumes zero: "prints_zero P"
  shows "snd (simplify_pass P (initialize_default_rules P) e) \<longleftrightarrow>
     to_string P (fst (simplify_pass P (initialize_default_rules P) e)) \<noteq> to_string P e"
proof -
  let ?R = "initialize_default_rules P"
  let ?alg = "[identity_addition, identity_multiplication, zero_multiplication,
    combine_constants P]"
  let ?dist = "[distribute_multiplication, factor_common_terms, distribute_over_subtraction]"
  let ?comm = "[antisymmetry, zero_commutator, expand_commutator]"
  obtain e1 c1 where s1: "category_step P ?R (e, False) ALGEBRAIC = (e1, c1)"
    by (cases "category_step P ?R (e, False) ALGEBRAIC")
  obtain e2 c2 where s2: "category_step P ?R (e1, c1) DISTRIBUTIVE = (e2, c2)"
    by (cases "category_step P ?R (e1, c1) DISTRIBUTIVE")
  obtain e3 c3 where s3: "category_step P ?R (e2, c2) COMMUTATOR_RULES = (e3, c3)"
    by (cases "category_step P ?R (e2, c2) COMMUTATOR_RULES")
  have pass: "simplify_pass P ?R e = (e3, c3)"
    by (simp add: simplify_pass_unfold s1 s2 s3 default_rules_lookup(4-6)
        category_step_pair [of P ?R _ _ TENSOR_RULES]
        category_step_pair [of P ?R _ _ OPERATOR_RULES]
        category_step_pair [of P ?R _ _ SYMMETRY])
  from category_step_cases [OF s1] have c1:
    "(e1 = e \<and> \<not> c1)
     \<or> (c1 \<and> apply_rules e ?alg = Some e1 \<and> to_string P e1 \<noteq> to_string P e)"
    by (auto simp: default_rules_lookup)
  from category_step_cases [OF s2] have c2:
    "(e2 = e1 \<and> c2 = c1)
     \<or> (c2 \<and> apply_rules e1 ?dist = Some e2 \<and> to_string P e2 \<noteq> to_string P e1)"
    by (auto simp: default_rules_lookup)
  from category_step_cases [OF s3] have c3:
    "(e3 = e2 \<and> c3 = c2)
     \<or> (c3 \<and> apply_rules e2 ?comm = Some e3 \<and> to_string P e3 \<noteq> to_string P e2)"
    by (auto simp: default_rules_lookup)
  have framed_then_differs: "to_string P t \<noteq> to_string P e"
    if alg: "apply_rules e ?alg = Some e1" and ty: "type e1 \<noteq> SYMBOL"
      and nf1: "\<And>X. to_string P t \<noteq> operand_string P e1 @ X"
      and nf2: "\<And>X. to_string P t \<noteq> X @ CHR '' '' # operand_string P e1"
    for t
  proof -
    from algebraic_framed [OF alg ty] show ?thesis
    proof
      assume "\<exists>X. to_string P e = operand_string P e1 @ CHR '' '' # X"
      then obtain X where "to_string P e = operand_string P e1 @ CHR '' '' # X" ..
      with nf1 [of "CHR '' '' # X"] show ?thesis by simp
    next
      assume "\<exists>X. to_string P e = X @ CHR '' '' # operand_string P e1"
      then obtain X where "to_string P e = X @ CHR '' '' # operand_string P e1" ..
      with nf2 [of X] show ?thesis by simp
    qed
  qed
  have "c3 \<longleftrightarrow> to_string P e3 \<noteq> to_string P e"
  proof (cases "c2 \<and> apply_rules e1 ?dist = Some e2 \<and> to_string P e2 \<noteq> to_string P e1")
    case dist: True
    then have d: "apply_rules e1 ?dist = Some e2" by simp
    have "apply_rules e2 ?comm = None"
      by (rule commutator_no_match) (rule distributive_not_framed(3) [OF d])
    with c3 dist have e3: "e3 = e2" "c3" by auto
    have "to_string P e2 \<noteq> to_string P e"
    proof (cases "e1 = e")
      case True
      with dist show ?thesis by simp
    next
      case False
      with c1 have alg: "apply_rules e ?alg = Some e1" by auto
      show ?thesis
        by (rule framed_then_differs [OF alg])
          (rule distributive_not_framed [OF d])+
    qed
    with e3 show ?thesis by simp
  next
    case nodist: False
    with c2 have e2: "e2 = e1" "c2 = c1" by auto
    show ?thesis
    proof (cases "c3 \<and> apply_rules e2 ?comm = Some e3 \<and> to_string P e3 \<noteq> to_string P e2")
      case comm: True
      then have c: "apply_rules e1 ?comm = Some e3" by (simp add: e2)
      have "to_string P e3 \<noteq> to_string P e"
      proof (cases "e1 = e")
        case True
        with comm e2 show ?thesis by simp
      next
        case False
        with c1 have alg: "apply_rules e ?alg = Some e1" by auto
        show ?thesis
          by (rule framed_then_differs [OF alg])
            (rule commutator_not_framed [OF zero c])+
      qed
      with comm show ?thesis by simp
    next
      case False
      with c3 have "e3 = e2" "c3 = c2" by auto
      with e2 c1 show ?thesis by auto
    qed
  qed
  with pass show ?thesis by simp
qed

declare operand_string_clone [simp del] type_constant_expr [simp del] not_nan_one [simp del]
  to_string_product [simp del] to_string_add [simp del] to_string_subtract [simp del]
  operand_string_factories [simp del] operand_string_BinaryOp_ADD [simp del]

section \<open>The claims\<close>

subsection \<open>C1: the end-to-end scenario\<close>

text \<open>
  Claim C1, as amended. For all names \<open>xn\<close> and \<open>yn\<close> of variable symbols and the
  scalar leaves \<open>zero\<close> (named 0, value 0.0) and \<open>one\<close> (named 1, value 1.0),
  \<open>simplify\<close> with the default rules applied to \<open>((x+0) * (y + 1*0)) + 0\<close> returns
  the four-term sum \<open>x*y + x*(1*0) + 0*y + 0*(1*0)\<close> with coefficients 1.0, because
  the rules rewrite the root only: the first pass drops the outer \<open>+ 0\<close> and
  distributes the product, and no rule matches a sum. \<open>simplify\<close> applied to
  \<open>x*y\<close> returns \<open>x*y\<close>, and the two results render differently on every
  platform.
\<close>

theorem full_simplification_result:
  fixes P xn yn
  defines "R \<equiv> initialize_default_rules P"
    and "x \<equiv> variable xn" and "y \<equiv> variable yn"
  shows "simplify P R (full_simplification_expr xn yn) =
           SumExpression
             [multiply x y, multiply x (multiply one zero),
              multiply zero y, multiply zero (multiply one zero)]
             [d_one, d_one, d_one, d_one]
         \<and> simplify P R (multiply x y) = multiply x y
         \<and> to_string P (simplify P R (full_simplification_expr xn yn))
             \<noteq> to_string P (simplify P R (multiply x y))"
proof -
  define M where "M = multiply (add x zero) (add y (multiply one zero))"
  define S where "S = SumExpression
             [multiply x y, multiply x (multiply one zero),
              multiply zero y, multiply zero (multiply one zero)]
             [d_one, d_one, d_one, d_one]"
  have E: "full_simplification_expr xn yn = add M zero"
    by (simp add: full_simplification_expr_def M_def x_def y_def)
  have cM: "clone M = M" and tM: "type M = MULTIPLY"
    by (simp_all add: M_def x_def y_def)
  have tS: "type S = SUM'"
    by (simp add: S_def)
  have l1: "identity_addition (add M zero) = Some M"
    by (simp add: identity_addition_add cM) (simp add: M_def)
  have l2: "distribute_multiplication M = Some S"
    by (simp add: M_def S_def x_def y_def distribute_multiplication_def multiply_def add_def
        add_term_def)
  have sM: "to_string P (add M zero) = to_string P M @ '' + '' @ to_string P zero"
    by (simp add: add_def tM)
  have l3: "to_string P M \<noteq> to_string P (add M zero)"
    by (simp add: sM)
  have "length (to_string P M) < length (to_string P S)"
    by (simp add: M_def S_def x_def y_def variable_def add_def multiply_def zero_def one_def
        symbol_def coefficient_def d_ne_def d_eq_def d_one_def d_isnan_def d_abs_bits_def)
  then have l4: "to_string P S \<noteq> to_string P M"
    by auto
  have a1: "apply_rules (add M zero)
      [identity_addition, identity_multiplication, zero_multiplication, combine_constants P]
      = Some M"
    by (simp add: l1)
  have a2: "apply_rules M
      [distribute_multiplication, factor_common_terms, distribute_over_subtraction] = Some S"
    by (simp add: l2)
  have a3: "apply_rules S [antisymmetry, zero_commutator, expand_commutator] = None"
    by (rule commutator_no_match) (simp add: tS)
  have p1: "simplify_pass P R (add M zero) = (S, True)"
    using l3 l4
    by (simp add: R_def simplify_pass_unfold default_rules_lookup category_step_pair a1 a2 a3
        del: apply_rules.simps)
  have p2: "simplify_pass P R S = (S, False)"
    unfolding R_def by (rule simplify_pass_fixed) (simp_all add: tS)
  have "simplify_loop P R (add M zero) True 0 = (S, 2)"
    by (simp add: simplify_loop_continue [OF p1] simplify_loop_stop [OF p2] max_iterations_def
        del: simplify_loop.simps)
  then have r1: "simplify P R (full_simplification_expr xn yn) = S"
    by (simp add: simplify_def E cM)
  have r2: "simplify P R (multiply x y) = multiply x y"
    unfolding R_def x_def y_def by (rule simplify_product)
  have "length (to_string P (multiply x y)) < length (to_string P S)"
    by (simp add: S_def x_def y_def variable_def add_def multiply_def zero_def one_def
        symbol_def coefficient_def d_ne_def d_eq_def d_one_def d_isnan_def d_abs_bits_def)
  then have "to_string P S \<noteq> to_string P (multiply x y)"
    by auto
  with r1 r2 show ?thesis
    by (simp add: S_def)
qed

text \<open>
  The claim as stated fails for \<open>x\<close> and \<open>y\<close> named x and y: the simplified scenario
  renders as the four-term sum, the simplified product as \<open>x * y\<close>.
\<close>

theorem full_simplification_counterexample:
  "to_string sample_platform
     (simplify sample_platform sample_rules (full_simplification_expr ''x'' ''y''))
     = ''x * y + x * 1=1 * 0=0 + 0=0 * y + 0=0 * 1=1 * 0=0''
   \<and> to_string sample_platform
       (simplify sample_platform sample_rules (multiply (variable ''x'') (variable ''y'')))
     = ''x * y''
   \<and> to_string sample_platform
       (simplify sample_platform sample_rules (full_simplification_expr ''x'' ''y''))
     \<noteq> to_string sample_platform
         (simplify sample_platform sample_rules (multiply (variable ''x'') (variable ''y'')))"
  by code_simp

theorem full_simplification_witness:
  "simplify sample_platform sample_rules (full_simplification_expr ''x'' ''y'') =
     SumExpression
       [multiply (variable ''x'') (variable ''y''),
        multiply (variable ''x'') (multiply one zero),
        multiply zero (variable ''y''),
        multiply zero (multiply one zero)]
       [d_one, d_one, d_one, d_one]"
  using full_simplification_result [of sample_platform "''x''" "''y''"]
  by (simp add: sample_rules_def)

subsection \<open>C2: order of categories, first match, change detection\<close>

text \<open>
  For a rule table other than the default one, a pass can raise \<open>changed\<close> and still
  end on the rendering it started from: with \<open>flip_rules\<close> the algebraic step turns
  \<open>a\<close> into \<open>b\<close> and the distributive step turns it back. The comparison is made
  at every category step, against the tree that step was given.
\<close>

lemma flip_rules_pass:
  "simplify_pass sample_platform flip_rules (variable ''a'') = (variable ''a'', True)"
  by (simp add: simplify_pass_unfold category_step_pair flip_rules_def variable_def symbol_def)

text \<open>
  Claim C2. \<open>simplify\<close> clones its input and runs passes while \<open>changed\<close> holds and
  fewer than 10 passes have run. A pass consults the rule categories in the order
  Algebraic, Distributive, Commutator, Tensor, Operator, Symmetry, each on the tree
  the previous one left. A category step looks up the rule list of its category (an
  absent category leaves tree and flag as they are), applies the list with
  \<open>apply_rules\<close>, and replaces the tree and raises \<open>changed\<close> exactly when there is
  a replacement whose rendering differs from the rendering of the current tree.
  \<open>apply_rules\<close> tries the rules in list order and the first rule that returns a
  replacement decides: it returns \<open>v\<close> exactly when some rule of the list returns
  \<open>v\<close> and all rules before it return nothing, whatever rules follow it, and it
  returns nothing exactly when every rule does.

  The flag and the renderings: a category step started with the flag down ends with
  it raised exactly when the tree it leaves renders differently from the tree it was
  given; a pass ends with the flag raised exactly when one of its six steps changed
  the rendering; and with the default rules, on a platform that prints \<open>0.0\<close> as
  \<open>0\<close>, a pass ends with the flag raised exactly when the tree it leaves renders
  differently from the tree the pass was given.
\<close>

theorem simplify_pass_discipline:
  "simplify P rules e = fst (simplify_loop P rules (clone e) True 0)
   \<and> simplify_loop P rules result changed iterations =
       (if changed \<and> iterations < 10 then
          (let (result', changed') = simplify_pass P rules result
           in simplify_loop P rules result' changed' (iterations + 1))
        else (result, iterations))
   \<and> rule_order =
       [ALGEBRAIC, DISTRIBUTIVE, COMMUTATOR_RULES, TENSOR_RULES, OPERATOR_RULES, SYMMETRY]
   \<and> simplify_pass P rules e =
       category_step P rules
         (category_step P rules
           (category_step P rules
             (category_step P rules
               (category_step P rules
                 (category_step P rules (e, False) ALGEBRAIC)
                 DISTRIBUTIVE)
               COMMUTATOR_RULES)
             TENSOR_RULES)
           OPERATOR_RULES)
         SYMMETRY
   \<and> category_step P rules (r, ch) rt =
       (case rules rt of
          None \<Rightarrow> (r, ch)
        | Some rs \<Rightarrow>
            (case apply_rules r rs of
               None \<Rightarrow> (r, ch)
             | Some new \<Rightarrow> if to_string P new \<noteq> to_string P r then (new, True) else (r, ch)))
   \<and> (apply_rules r rs = Some v \<longleftrightarrow>
        (\<exists>i<length rs. (rs ! i) r = Some v \<and> (\<forall>j<i. (rs ! j) r = None)))
   \<and> ((\<forall>q\<in>set before. q r = None) \<and> rule r = Some v \<longrightarrow>
        apply_rules r (before @ rule # after) = Some v)
   \<and> (apply_rules r rs = None \<longleftrightarrow> (\<forall>q\<in>set rs. q r = None))
   \<and> (snd (category_step P rules (r, False) rt) \<longleftrightarrow>
        to_string P (fst (category_step P rules (r, False) rt)) \<noteq> to_string P r)
   \<and> (snd (simplify_pass P rules e) \<longleftrightarrow>
        (\<exists>k<length rule_order.
           to_string P (fst (foldl (category_step P rules) (e, False) (take (Suc k) rule_order)))
           \<noteq> to_string P (fst (foldl (category_step P rules) (e, False) (take k rule_order)))))
   \<and> (prints_zero P \<longrightarrow>
        (snd (simplify_pass P (initialize_default_rules P) e) \<longleftrightarrow>
         to_string P (fst (simplify_pass P (initialize_default_rules P) e)) \<noteq> to_string P e))"
proof -
  have short: "apply_rules r (before @ rule # after) = Some v"
    if "\<forall>q\<in>set before. q r = None" "rule r = Some v"
    using that by (induction before) simp_all
  have step: "snd (category_step P rules (r, False) rt) \<longleftrightarrow>
      to_string P (fst (category_step P rules (r, False) rt)) \<noteq> to_string P r"
    using category_step_changed [of P rules r False rt] by simp
  have pass: "snd (simplify_pass P rules e) \<longleftrightarrow>
        (\<exists>k<length rule_order.
           to_string P (fst (foldl (category_step P rules) (e, False) (take (Suc k) rule_order)))
           \<noteq> to_string P (fst (foldl (category_step P rules) (e, False) (take k rule_order))))"
    unfolding simplify_pass_def
    using foldl_category_step_changed [of P rules e False rule_order] by simp
  show ?thesis
  proof (intro conjI)
    show "simplify P rules e = fst (simplify_loop P rules (clone e) True 0)"
      by (rule simplify_def)
    show "simplify_loop P rules result changed iterations =
       (if changed \<and> iterations < 10 then
          (let (result', changed') = simplify_pass P rules result
           in simplify_loop P rules result' changed' (iterations + 1))
        else (result, iterations))"
      by (subst simplify_loop.simps) (simp add: max_iterations_def del: simplify_loop.simps)
    show "rule_order =
        [ALGEBRAIC, DISTRIBUTIVE, COMMUTATOR_RULES, TENSOR_RULES, OPERATOR_RULES, SYMMETRY]"
      by (simp add: rule_order_def)
    show "simplify_pass P rules e =
       category_step P rules
         (category_step P rules
           (category_step P rules
             (category_step P rules
               (category_step P rules
                 (category_step P rules (e, False) ALGEBRAIC)
                 DISTRIBUTIVE)
               COMMUTATOR_RULES)
             TENSOR_RULES)
           OPERATOR_RULES)
         SYMMETRY"
      by (rule simplify_pass_unfold)
    show "category_step P rules (r, ch) rt =
       (case rules rt of
          None \<Rightarrow> (r, ch)
        | Some rs \<Rightarrow>
            (case apply_rules r rs of
               None \<Rightarrow> (r, ch)
             | Some new \<Rightarrow> if to_string P new \<noteq> to_string P r then (new, True) else (r, ch)))"
      by (rule category_step_pair)
    show "apply_rules r rs = Some v \<longleftrightarrow>
        (\<exists>i<length rs. (rs ! i) r = Some v \<and> (\<forall>j<i. (rs ! j) r = None))"
      by (rule apply_rules_Some_iff)
    show "(\<forall>q\<in>set before. q r = None) \<and> rule r = Some v \<longrightarrow>
        apply_rules r (before @ rule # after) = Some v"
      using short by blast
    show "apply_rules r rs = None \<longleftrightarrow> (\<forall>q\<in>set rs. q r = None)"
      by (rule apply_rules_None_iff)
    show "snd (category_step P rules (r, False) rt) \<longleftrightarrow>
        to_string P (fst (category_step P rules (r, False) rt)) \<noteq> to_string P r"
      by (rule step)
    show "snd (simplify_pass P rules e) \<longleftrightarrow>
        (\<exists>k<length rule_order.
           to_string P (fst (foldl (category_step P rules) (e, False) (take (Suc k) rule_order)))
           \<noteq> to_string P (fst (foldl (category_step P rules) (e, False) (take k rule_order))))"
      by (rule pass)
    show "prints_zero P \<longrightarrow>
        (snd (simplify_pass P (initialize_default_rules P) e) \<longleftrightarrow>
         to_string P (fst (simplify_pass P (initialize_default_rules P) e)) \<noteq> to_string P e)"
      using default_pass_changed_iff [of P e] by blast
  qed
qed

text \<open>
  The witness runs one pass on \<open>((a - b) * c) * 1\<close>. The algebraic step passes
  \<open>identity_addition\<close>, which returns nothing, and takes the result of
  \<open>identity_multiplication\<close>, the second rule; the distributive step then passes two
  rules and takes the result of \<open>distribute_over_subtraction\<close>, the third; the
  commutator step finds no match and the three last categories have no list. The pass
  ends with the flag raised on \<open>a*c - b*c\<close>, whose rendering differs from the input's.
\<close>

theorem simplify_pass_discipline_witness:
  "prints_zero sample_platform
   \<and> identity_addition
       (multiply (multiply (subtract (variable ''a'') (variable ''b'')) (variable ''c'')) one)
     = None
   \<and> apply_rules
       (multiply (multiply (subtract (variable ''a'') (variable ''b'')) (variable ''c'')) one)
       [identity_addition, identity_multiplication, zero_multiplication,
        combine_constants sample_platform]
     = Some (multiply (subtract (variable ''a'') (variable ''b'')) (variable ''c''))
   \<and> apply_rules (multiply (subtract (variable ''a'') (variable ''b'')) (variable ''c''))
       [distribute_multiplication, factor_common_terms, distribute_over_subtraction]
     = Some (subtract (multiply (variable ''a'') (variable ''c''))
                      (multiply (variable ''b'') (variable ''c'')))
   \<and> simplify_pass sample_platform sample_rules
       (multiply (multiply (subtract (variable ''a'') (variable ''b'')) (variable ''c'')) one)
     = (subtract (multiply (variable ''a'') (variable ''c''))
                 (multiply (variable ''b'') (variable ''c'')), True)
   \<and> to_string sample_platform
       (multiply (multiply (subtract (variable ''a'') (variable ''b'')) (variable ''c'')) one)
     = ''(a - b) * c * 1=1''
   \<and> to_string sample_platform
       (subtract (multiply (variable ''a'') (variable ''c''))
                 (multiply (variable ''b'') (variable ''c'')))
     = ''a * c - b * c''"
proof -
  let ?m = "multiply (subtract (variable ''a'') (variable ''b'')) (variable ''c'')"
  let ?e = "multiply ?m one"
  let ?s = "subtract (multiply (variable ''a'') (variable ''c''))
                     (multiply (variable ''b'') (variable ''c''))"
  have pz: "prints_zero sample_platform"
    by (simp add: prints_zero_def sample_platform_def d_zero_def)
  have ia: "identity_addition ?e = None"
    by (simp add: identity_addition_def multiply_def)
  have im: "identity_multiplication ?e = Some ?m"
    by (simp add: identity_multiplication_multiply)
  have dm: "distribute_multiplication ?m = None"
    by (simp add: distribute_multiplication_def multiply_def subtract_def)
  have fc: "factor_common_terms ?m = None"
    by (simp add: factor_common_terms_def multiply_def)
  have ds: "distribute_over_subtraction ?m = Some ?s"
    by (simp add: distribute_over_subtraction_def multiply_def subtract_def Let_def)
  note short_alg = simplify_pass_discipline [where P = sample_platform
      and rules = sample_rules and e = ?e and r = ?e and v = ?m
      and before = "[identity_addition]" and rule = identity_multiplication
      and after = "[zero_multiplication, combine_constants sample_platform]",
      THEN conjunct2, THEN conjunct2, THEN conjunct2, THEN conjunct2, THEN conjunct2,
      THEN conjunct2, THEN conjunct1]
  note short_dist = simplify_pass_discipline [where P = sample_platform
      and rules = sample_rules and e = ?e and r = ?m and v = ?s
      and before = "[distribute_multiplication, factor_common_terms]"
      and rule = distribute_over_subtraction and after = "[]",
      THEN conjunct2, THEN conjunct2, THEN conjunct2, THEN conjunct2, THEN conjunct2,
      THEN conjunct2, THEN conjunct1]
  note pass = simplify_pass_discipline [where P = sample_platform
      and rules = sample_rules and e = ?e,
      THEN conjunct2, THEN conjunct2, THEN conjunct2, THEN conjunct1]
  note step = simplify_pass_discipline [where P = sample_platform
      and rules = sample_rules and e = ?e,
      THEN conjunct2, THEN conjunct2, THEN conjunct2, THEN conjunct2, THEN conjunct1]
  note level = simplify_pass_discipline [where P = sample_platform and e = ?e,
      THEN conjunct2, THEN conjunct2, THEN conjunct2, THEN conjunct2, THEN conjunct2,
      THEN conjunct2, THEN conjunct2, THEN conjunct2, THEN conjunct2, THEN conjunct2]
  from short_alg ia im have a:
    "apply_rules ?e [identity_addition, identity_multiplication, zero_multiplication,
       combine_constants sample_platform] = Some ?m"
    by simp
  from short_dist dm fc ds have d:
    "apply_rules ?m [distribute_multiplication, factor_common_terms,
       distribute_over_subtraction] = Some ?s"
    by simp
  have c: "apply_rules ?s [antisymmetry, zero_commutator, expand_commutator] = None"
    by (rule commutator_no_match) (simp add: subtract_def)
  have se: "to_string sample_platform ?e = ''(a - b) * c * 1=1''"
    and sm: "to_string sample_platform ?m = ''(a - b) * c''"
    and ss: "to_string sample_platform ?s = ''a * c - b * c''"
    by code_simp+
  have p: "simplify_pass sample_platform sample_rules ?e = (?s, True)"
    by (subst pass)
      (simp add: sample_rules_def step [unfolded sample_rules_def] default_rules_lookup
        a d c se sm ss del: apply_rules.simps)
  from level pz p have "to_string sample_platform ?s \<noteq> to_string sample_platform ?e"
    by (simp add: sample_rules_def)
  with pz ia a d p se ss show ?thesis by simp
qed

subsection \<open>C3: the iteration cap\<close>

text \<open>
  Claim C3. For every platform, rule table and input expression, \<open>simplify\<close> returns:
  its loop is a total function whose counter \<open>iterations\<close> grows by one in every pass
  and never passes 10, so the result is reached after at most 10 iterations, whether
  or not the rules keep changing the rendered string.
\<close>

theorem simplify_within_cap:
  "\<exists>result n. simplify_loop P rules (clone e) True 0 = (result, n)
      \<and> simplify P rules e = result \<and> n \<le> 10"
proof -
  obtain result n where r: "simplify_loop P rules (clone e) True 0 = (result, n)"
    by (cases "simplify_loop P rules (clone e) True 0")
  have "snd (simplify_loop P rules (clone e) True 0) \<le> max_iterations"
    by (rule simplify_loop_bound) simp
  with r show ?thesis
    by (simp add: simplify_def max_iterations_def)
qed

theorem simplify_within_cap_witness:
  "\<exists>result n. simplify_loop sample_platform sample_rules (clone ping_pong) True 0 = (result, n)
      \<and> simplify sample_platform sample_rules ping_pong = result \<and> n \<le> 10"
  by (rule simplify_within_cap)

text \<open>
  The cap is what stops the loop on \<open>a*x + b*x\<close>: factoring and distributing undo
  each other in alternate passes, every pass changes the string, and the loop leaves
  after its tenth pass.
\<close>

lemma ping_pong_reaches_cap:
  "snd (simplify_loop sample_platform sample_rules (clone ping_pong) True 0) = 10"
  by code_simp

subsection \<open>C4: identity and zero rules\<close>

text \<open>
  Claim C4. An operand counts as zero (as one) exactly when it is a
  \<open>SymbolExpression\<close> over a \<open>ScalarSymbol\<close> whose number compares equal to 0.0 (to
  1.0) under \<open>==\<close>, whatever its name. On a binary Add, \<open>identity_addition\<close> returns
  a copy of the right operand when the left one is zero (\<open>0+x\<close>), otherwise a copy of
  the left operand when the right one is zero (\<open>x+0\<close>), otherwise nothing. On a
  binary Multiply, \<open>identity_multiplication\<close> does the same with one, and
  \<open>zero_multiplication\<close> returns the zero expression when either operand is zero,
  otherwise nothing. When both operands of an Add are zero leaves, the expression is
  rewritten by the case \<open>0+x\<close>, which is tested first; likewise for two one leaves.
\<close>

theorem identity_zero_rules:
  "(check_zero e \<longleftrightarrow> (\<exists>n v cs. e = SymbolExpression (ScalarSymbol n v) cs \<and> d_eq v d_zero))
   \<and> (check_one e \<longleftrightarrow> (\<exists>n v cs. e = SymbolExpression (ScalarSymbol n v) cs \<and> d_eq v d_one))
   \<and> identity_addition (add l r) =
       (if check_zero l then Some (clone r)
        else if check_zero r then Some (clone l) else None)
   \<and> identity_multiplication (multiply l r) =
       (if check_one l then Some (clone r)
        else if check_one r then Some (clone l) else None)
   \<and> zero_multiplication (multiply l r) =
       (if check_zero l \<or> check_zero r then Some zero else None)"
  using check_zero_iff [of e] check_one_iff [of e]
  by (simp only: identity_addition_add identity_multiplication_multiply
      zero_multiplication_multiply)

theorem identity_zero_rules_witness:
  "check_zero (symbol (ScalarSymbol ''nought'' 0x8000000000000000))
   \<and> \<not> check_zero (symbol (Symbol ''0'' SCALAR))
   \<and> \<not> check_zero (symbol (ScalarSymbol ''0'' 1))
   \<and> identity_addition (add (variable ''x'') zero) = Some (variable ''x'')
   \<and> identity_addition (add zero (variable ''x'')) = Some (variable ''x'')
   \<and> identity_multiplication (multiply (variable ''x'') one) = Some (variable ''x'')
   \<and> identity_multiplication (multiply one (variable ''x'')) = Some (variable ''x'')
   \<and> zero_multiplication (multiply (variable ''x'') zero) = Some zero
   \<and> zero_multiplication (multiply zero (variable ''x'')) = Some zero
   \<and> identity_addition (add (variable ''x'') (variable ''y'')) = None
   \<and> identity_multiplication (multiply (variable ''x'') zero) = None
   \<and> zero_multiplication (multiply (variable ''x'') one) = None"
  using identity_zero_rules [of "symbol (ScalarSymbol ''nought'' 0x8000000000000000)",
          THEN conjunct1]
        identity_zero_rules [of "symbol (Symbol ''0'' SCALAR)", THEN conjunct1]
        identity_zero_rules [of "symbol (ScalarSymbol ''0'' 1)", THEN conjunct1]
        identity_zero_rules [of _ "variable ''x''" zero, THEN conjunct2, THEN conjunct2]
        identity_zero_rules [of _ zero "variable ''x''", THEN conjunct2, THEN conjunct2]
        identity_zero_rules [of _ "variable ''x''" one, THEN conjunct2, THEN conjunct2]
        identity_zero_rules [of _ one "variable ''x''", THEN conjunct2, THEN conjunct2]
        identity_zero_rules [of _ "variable ''x''" "variable ''y''", THEN conjunct2,
          THEN conjunct2]
  by (simp add: symbol_def d_eq_def d_isnan_def d_abs_bits_def d_iszero_def d_zero_def)

subsection \<open>C5: distribution of a product over binary sums\<close>

text \<open>
  Claim C5. For all expressions \<open>a\<close>, \<open>b\<close>, \<open>c\<close>, \<open>d\<close>,
  \<open>distribute_multiplication\<close> applied to the binary Multiply of the binary Adds
  \<open>a+b\<close> and \<open>c+d\<close> returns the \<open>SumExpression\<close> of the four products \<open>a*c\<close>,
  \<open>a*d\<close>, \<open>b*c\<close>, \<open>b*d\<close> in this order (over deep copies of the operands), each with
  coefficient 1.0. When only one operand is a binary Add and the other is neither an
  Add nor a Sum, the result is the binary Add of the two products. When an operand is
  an n-ary Sum node, the rule returns nothing, whatever the other operand is.
\<close>

theorem distribute_multiplication_spec:
  "distribute_multiplication (multiply (add a b) (add c d)) =
     Some (SumExpression
       [multiply (clone a) (clone c), multiply (clone a) (clone d),
        multiply (clone b) (clone c), multiply (clone b) (clone d)]
       [d_one, d_one, d_one, d_one])
   \<and> (type c \<noteq> ADD \<and> type c \<noteq> SUM' \<longrightarrow>
        distribute_multiplication (multiply (add a b) c) =
          Some (add (multiply (clone a) (clone c)) (multiply (clone b) (clone c)))
        \<and> distribute_multiplication (multiply c (add a b)) =
          Some (add (multiply (clone c) (clone a)) (multiply (clone c) (clone b))))
   \<and> (type s = SUM' \<longrightarrow>
        distribute_multiplication (multiply s c) = None
        \<and> distribute_multiplication (multiply c s) = None)"
  by (simp add: distribute_multiplication_def multiply_def add_def add_term_def)

theorem distribute_multiplication_witness:
  "distribute_multiplication
     (multiply (add (variable ''a'') (variable ''b'')) (add (variable ''c'') (variable ''d'')))
     = Some (SumExpression
         [multiply (variable ''a'') (variable ''c''), multiply (variable ''a'') (variable ''d''),
          multiply (variable ''b'') (variable ''c''), multiply (variable ''b'') (variable ''d'')]
         [d_one, d_one, d_one, d_one])
   \<and> distribute_multiplication (multiply (add (variable ''a'') (variable ''b'')) (variable ''c''))
     = Some (add (multiply (variable ''a'') (variable ''c''))
                 (multiply (variable ''b'') (variable ''c'')))
   \<and> distribute_multiplication (multiply (variable ''c'') (add (variable ''a'') (variable ''b'')))
     = Some (add (multiply (variable ''c'') (variable ''a''))
                 (multiply (variable ''c'') (variable ''b'')))
   \<and> distribute_multiplication
       (multiply (sum_expr [variable ''a'', variable ''b'']) (variable ''c'')) = None
   \<and> distribute_multiplication
       (multiply (variable ''c'') (sum_expr [variable ''a'', variable ''b''])) = None"
proof -
  have s: "type (sum_expr [variable ''a'', variable ''b'']) = SUM'"
    by (simp add: sum_expr_def add_term_def)
  have c: "type (variable ''c'') \<noteq> ADD \<and> type (variable ''c'') \<noteq> SUM'"
    by simp
  from distribute_multiplication_spec [of "variable ''a''" "variable ''b''" "variable ''c''"
      "variable ''d''" "sum_expr [variable ''a'', variable ''b'']"] s c
  show ?thesis by simp
qed

subsection \<open>C6: the self-commutator\<close>

text \<open>
  Claim C6, as amended. For every expression \<open>E\<close>, compound or not, in which no sum
  coefficient that \<open>equals\<close> compares is a NaN (in particular for every tree built by
  the functions of \<open>ExpressionFactory\<close>, whose sums have the coefficient 1.0),
  \<open>simplify\<close> with the default rules applied to the commutator \<open>[E,E]\<close> returns the
  zero expression: \<open>zero_commutator\<close> finds the two children structurally equal.
\<close>

theorem simplify_self_commutator:
  assumes "nan_free E"
  shows "simplify P (initialize_default_rules P) (commutator E E) = zero"
proof -
  let ?R = "initialize_default_rules P"
  let ?C = "CommutatorExpression (clone E) (clone E) []"
  have comm: "apply_rules ?C [antisymmetry, zero_commutator, expand_commutator] = Some zero"
    using assms by (simp add: antisymmetry_def zero_commutator_self)
  have differ: "to_string P zero \<noteq> to_string P ?C"
    by (simp add: to_string_zero)
  have "simplify_pass P ?R ?C = (zero, True)"
    using differ
    by (simp add: simplify_pass_unfold default_rules_lookup category_step_pair
        algebraic_no_match distributive_no_match comm del: apply_rules.simps)
  moreover have "simplify_pass P ?R zero = (zero, False)"
    by (rule simplify_pass_fixed) simp_all
  ultimately have "simplify_loop P ?R ?C True 0 = (zero, 2)"
    by (simp add: simplify_loop_continue simplify_loop_stop max_iterations_def)
  then show ?thesis
    by (simp add: simplify_def commutator_def)
qed

theorem simplify_self_commutator_witness:
  "nan_free (multiply (add (variable ''x'') (variable ''y'')) (variable ''x''))
   \<and> simplify sample_platform sample_rules
       (commutator (multiply (add (variable ''x'') (variable ''y'')) (variable ''x''))
                   (multiply (add (variable ''x'') (variable ''y'')) (variable ''x'')))
     = zero"
proof -
  have n: "nan_free (multiply (add (variable ''x'') (variable ''y'')) (variable ''x''))"
    by simp
  from simplify_self_commutator [OF n, of sample_platform] n
  show ?thesis by (simp add: sample_rules_def)
qed

text \<open>
  The claim as stated fails for the one-term sum whose coefficient is a NaN, built by
  \<open>add_term\<close>: \<open>coefficient(0) != coefficient(0)\<close> holds, so the sum is not
  \<open>equals\<close> to itself, \<open>zero_commutator\<close> returns nothing, and \<open>expand_commutator\<close>
  rewrites \<open>[E,E]\<close> to \<open>E*E - E*E\<close>.
\<close>

theorem simplify_self_commutator_counterexample:
  "\<not> equals nan_sum nan_sum
   \<and> simplify sample_platform sample_rules (commutator nan_sum nan_sum)
     = subtract (multiply nan_sum nan_sum) (multiply nan_sum nan_sum)
   \<and> simplify sample_platform sample_rules (commutator nan_sum nan_sum) \<noteq> zero"
  by code_simp

subsection \<open>C7: parentheses in the rendering of a binary operation\<close>

text \<open>
  Claim C7, as amended. In the rendering of a binary-operation node, a child is
  wrapped in parentheses if and only if its tag is \<open>ADD\<close> or \<open>SUBTRACT\<close>, whatever
  the operator of the node is: the operator's precedence is not consulted, and
  \<open>(a+b)+c\<close> renders with its parentheses.
\<close>

theorem to_string_binary_parentheses:
  "to_string P (BinaryOpExpression t l r cs) =
     (if type l = ADD \<or> type l = SUBTRACT then ''('' @ to_string P l @ '')''
      else to_string P l)
     @ '' '' @ operator_symbol t @ '' ''
     @ (if type r = ADD \<or> type r = SUBTRACT then ''('' @ to_string P r @ '')''
        else to_string P r)"
  by simp

theorem to_string_binary_parentheses_counterexample:
  "to_string sample_platform (add (add (variable ''a'') (variable ''b'')) (variable ''c''))
     = ''(a + b) + c''"
  by code_simp

theorem to_string_binary_parentheses_witness:
  "to_string sample_platform
     (multiply (subtract (variable ''a'') (variable ''b'')) (variable ''c''))
     = ''(a - b) * c''"
  using to_string_binary_parentheses [of sample_platform MULTIPLY
      "subtract (variable ''a'') (variable ''b'')" "variable ''c''" "[]"]
  by (simp add: multiply_def subtract_def variable_def symbol_def)

subsection \<open>C8: equal expressions have equal hashes\<close>

text \<open>
  Claim C8. On every platform whose \<open>std::hash<double>\<close> gives equal hashes to
  doubles that compare equal (the contract of \<open>std::hash\<close>), for all expressions
  \<open>a\<close> and \<open>b\<close> over symbol leaves, binary operations, commutators and sums:
  if \<open>equals(a, b)\<close> then \<open>hash(a) == hash(b)\<close>.
\<close>

theorem equals_implies_equal_hash:
  "hash_respects_eq P \<Longrightarrow> equals a b \<Longrightarrow> hash P a = hash P b"
  by (rule equals_imp_hash)

theorem equals_implies_equal_hash_witness:
  "hash_respects_eq sample_platform
   \<and> equals (SumExpression [add (variable ''x'') one] [0])
            (SumExpression [add (variable ''x'') (symbol (Symbol ''1'' SCALAR))]
               [0x8000000000000000])
   \<and> hash sample_platform (SumExpression [add (variable ''x'') one] [0])
     = hash sample_platform
         (SumExpression [add (variable ''x'') (symbol (Symbol ''1'' SCALAR))]
            [0x8000000000000000])"
proof -
  have e: "equals (SumExpression [add (variable ''x'') one] [0])
            (SumExpression [add (variable ''x'') (symbol (Symbol ''1'' SCALAR))]
               [0x8000000000000000])"
    by code_simp
  from equals_implies_equal_hash [OF hash_respects_eq_sample e] hash_respects_eq_sample e
  show ?thesis by simp
qed

subsection \<open>C9: \<open>set_child\<close>\<close>

text \<open>
  Claim C9. For every node \<open>e\<close> with \<open>n\<close> children and every child \<open>c\<close>:
  when \<open>i \<ge> n\<close>, \<open>set_child(i, c)\<close> leaves the node as it is and signals nothing;
  when \<open>i < n\<close>, it replaces child \<open>i\<close> by \<open>c\<close> and nothing else: the number of
  children, every other child and the tag stay, and putting the old children back
  gives the old node.
\<close>

theorem set_child_spec:
  "(num_children e \<le> i \<longrightarrow> set_child e i c = e) \<and>
   (i < num_children e \<longrightarrow>
      children (set_child e i c) = (children e)[i := c]
      \<and> num_children (set_child e i c) = num_children e
      \<and> child (set_child e i c) i = c
      \<and> (\<forall>j. j \<noteq> i \<longrightarrow> child (set_child e i c) j = child e j)
      \<and> type (set_child e i c) = type e
      \<and> with_children (set_child e i c) (children e) = e)"
  by (simp add: set_child_def num_children_def child_def children_with_children
      type_with_children with_children_twice)

theorem set_child_witness:
  "set_child (add (variable ''a'') (variable ''b'')) 2 (variable ''c'')
     = add (variable ''a'') (variable ''b'')
   \<and> set_child (add (variable ''a'') (variable ''b'')) 1 (variable ''c'')
     = add (variable ''a'') (variable ''c'')"
proof -
  let ?e = "add (variable ''a'') (variable ''b'')"
  have n: "num_children ?e = 2"
    by (simp add: num_children_def add_def)
  from set_child_spec [of ?e 2 "variable ''c''"] n
  have out: "set_child ?e 2 (variable ''c'') = ?e" by simp
  from set_child_spec [of ?e 1 "variable ''c''"] n
  have "children (set_child ?e 1 (variable ''c'')) = [variable ''a'', variable ''c'']"
    and "type (set_child ?e 1 (variable ''c'')) = ADD"
    by (simp_all add: add_def)
  moreover have "set_child ?e 1 (variable ''c'') = add (variable ''a'') (variable ''c'')"
    by (simp add: set_child_def add_def)
  ultimately show ?thesis using out by simp
qed

subsection \<open>C10: the number of a scalar symbol is ignored by equality and hashing\<close>

text \<open>
  Claim C10. For every name \<open>n\<close> and all numbers \<open>u\<close> and \<open>v\<close>, the symbol leaves
  over \<open>ScalarSymbol(n, u)\<close> and \<open>ScalarSymbol(n, v)\<close> are \<open>equals\<close> and have the
  same hash on every platform, also when \<open>u\<close> and \<open>v\<close> differ: symbol equality and
  the symbol hash read the name and the kind only.
\<close>

theorem scalar_value_ignored:
  "symbol_eq (ScalarSymbol n u) (ScalarSymbol n v)
   \<and> symbol_hash P (ScalarSymbol n u) = symbol_hash P (ScalarSymbol n v)
   \<and> equals (symbol (ScalarSymbol n u)) (symbol (ScalarSymbol n v))
   \<and> hash P (symbol (ScalarSymbol n u)) = hash P (symbol (ScalarSymbol n v))
   \<and> symbol_eq s s' = (name s = name s' \<and> symbol_kind s = symbol_kind s')
   \<and> symbol_hash P s =
       hash_string P (name s) XOR push_bit 1 (hash_int P (symbol_type_int (symbol_kind s)))"
  by (simp add: symbol_eq_def symbol_hash_def symbol_def)

theorem scalar_value_ignored_witness:
  "equals (symbol (ScalarSymbol ''k'' d_zero)) (symbol (ScalarSymbol ''k'' d_one))
   \<and> hash sample_platform (symbol (ScalarSymbol ''k'' d_zero))
     = hash sample_platform (symbol (ScalarSymbol ''k'' d_one))
   \<and> d_ne d_zero d_one"
  using scalar_value_ignored [of "''k''" d_zero d_one sample_platform]
  by (simp add: d_ne_def d_eq_def d_zero_def d_one_def d_iszero_def d_abs_bits_def)

end
